theory Spec2Isabelle
  imports Main "HOL-Library.Word"
begin

unbundle bit_operations_syntax

section \<open>Buffers and JavaScript values\<close>

text \<open>
  A Node \<open>Buffer\<close> is a list of bytes. The big-endian readers are the ones of Node's
  \<open>Buffer\<close>; Node raises a RangeError for a read past the end, and every read in the
  decoders below stands behind the decoder's own length guard, at an offset below the
  guarded length. \<open>subarray\<close> and \<open>slice\<close> clamp to the buffer, as Node does.
\<close>

type_synonym byte = "8 word"
type_synonym buffer = "byte list"

definition readUInt8 :: "buffer \<Rightarrow> nat \<Rightarrow> nat" where
  "readUInt8 buf off = unat (buf ! off)"

definition readUInt16BE :: "buffer \<Rightarrow> nat \<Rightarrow> nat" where
  "readUInt16BE buf off = readUInt8 buf off * 256 + readUInt8 buf (off + 1)"

definition readUInt32BE :: "buffer \<Rightarrow> nat \<Rightarrow> nat" where
  "readUInt32BE buf off =
     readUInt8 buf off * 16777216 + readUInt8 buf (off + 1) * 65536
       + readUInt8 buf (off + 2) * 256 + readUInt8 buf (off + 3)"

definition subarray :: "buffer \<Rightarrow> nat \<Rightarrow> nat \<Rightarrow> buffer" where
  "subarray buf start end = take (end - start) (drop start buf)"

definition uint8 :: "nat \<Rightarrow> buffer" where
  "uint8 v = [of_nat v]"

definition uint16BE :: "nat \<Rightarrow> buffer" where
  "uint16BE v = [of_nat (v div 256), of_nat v]"

definition uint32BE :: "nat \<Rightarrow> buffer" where
  "uint32BE v = [of_nat (v div 16777216), of_nat (v div 65536), of_nat (v div 256), of_nat v]"

text \<open>
  The values \<open>JSON.parse\<close> produces. Numbers are the integers; a property that is
  absent reads as \<open>undefined\<close>, which is \<open>None\<close> of \<open>json option\<close>.
\<close>

datatype json =
    JNull
  | JBool bool
  | JNum int
  | JStr string
  | JArr "json list"
  | JObj "(string \<times> json) list"

datatype error = TypeError | IOError

datatype payload = Value json | Binary buffer

text \<open>
  What the code takes from the JavaScript runtime and from Node: \<open>JSON.parse\<close>
  (\<open>None\<close> when it raises SyntaxError), \<open>JSON.stringify\<close>, the UTF-8 conversions
  of \<open>Buffer\<close>, \<open>String.prototype.trim\<close>, the decimal form of a number,
  \<open>crypto.randomBytes(8)\<close> (the result of the k-th call) and whether
  \<open>fs.writeFileSync\<close> on the log file of a car number succeeds.
\<close>

record runtime =
  json_parse :: "string \<Rightarrow> json option"
  json_stringify :: "json \<Rightarrow> string"
  utf8_decode :: "buffer \<Rightarrow> string"
  utf8_encode :: "string \<Rightarrow> buffer"
  str_trim :: "string \<Rightarrow> string"
  num_str :: "int \<Rightarrow> string"
  randomBytes8 :: "nat \<Rightarrow> buffer"
  writeFileSync_ok :: "string \<Rightarrow> bool"

subsection \<open>Coercions and property reads\<close>

text \<open>
  Truthiness, \<open>a || b\<close>, the property reads \<open>v.k\<close> (a TypeError on null and
  undefined) and \<open>v?.k\<close>. The members the code reads (\<open>SESSION\<close>, \<open>MODULE\<close>,
  \<open>OPERATION\<close>, \<open>PARAMETER\<close>, the device fields, \<open>operation\<close>, \<open>name\<close>, ...)
  are no members of a string, number, boolean or array and are not inherited by an
  object, so they read as undefined everywhere but on an object that carries them.
\<close>

fun truthy :: "json \<Rightarrow> bool" where
  "truthy JNull = False"
| "truthy (JBool b) = b"
| "truthy (JNum n) = (n \<noteq> 0)"
| "truthy (JStr s) = (s \<noteq> [])"
| "truthy (JArr xs) = True"
| "truthy (JObj kvs) = True"

definition js_truthy :: "json option \<Rightarrow> bool" where
  "js_truthy v = (case v of None \<Rightarrow> False | Some j \<Rightarrow> truthy j)"

definition js_or :: "json option \<Rightarrow> json option \<Rightarrow> json option" where
  "js_or a b = (if js_truthy a then a else b)"

definition or_default :: "json option \<Rightarrow> json \<Rightarrow> json" where
  "or_default a d = (case a of None \<Rightarrow> d | Some j \<Rightarrow> if truthy j then j else d)"

definition member_of :: "json \<Rightarrow> string \<Rightarrow> json option" where
  "member_of v k = (case v of JObj kvs \<Rightarrow> map_of kvs k | _ \<Rightarrow> None)"

definition get_opt :: "json option \<Rightarrow> string \<Rightarrow> json option" where
  "get_opt v k =
     (case v of
        None \<Rightarrow> None
      | Some JNull \<Rightarrow> None
      | Some j \<Rightarrow> member_of j k)"

text \<open>
  An object literal as \<open>JSON.stringify\<close> sees it: a member whose value is undefined
  is left out.
\<close>

fun literal :: "(string \<times> json option) list \<Rightarrow> (string \<times> json) list" where
  "literal [] = []"
| "literal ((k, None) # ms) = literal ms"
| "literal ((k, Some v) # ms) = (k, v) # literal ms"

fun str_join :: "string \<Rightarrow> string list \<Rightarrow> string" where
  "str_join sep [] = []"
| "str_join sep [x] = x"
| "str_join sep (x # y # ys) = x @ sep @ str_join sep (y # ys)"

text \<open>
  \<open>ToString\<close>, as a template literal, \<open>String(v)\<close> and a property key apply it. An
  array joins its elements with commas, null giving the empty string; an object gives
  \<open>[object Object]\<close>, unless it carries a member \<open>toString\<close> of its own, which is no
  function, whereupon the conversion raises a TypeError.
\<close>

fun ToString :: "(int \<Rightarrow> string) \<Rightarrow> json \<Rightarrow> error + string"
  and ToStrings :: "(int \<Rightarrow> string) \<Rightarrow> json list \<Rightarrow> error + string list" where
  "ToString ns JNull = Inr ''null''"
| "ToString ns (JBool b) = Inr (if b then ''true'' else ''false'')"
| "ToString ns (JNum n) = Inr (ns n)"
| "ToString ns (JStr s) = Inr s"
| "ToString ns (JObj kvs) =
     (if ''toString'' \<in> set (map fst kvs) then Inl TypeError else Inr ''[object Object]'')"
| "ToString ns (JArr xs) =
     (case ToStrings ns xs of Inl e \<Rightarrow> Inl e | Inr ss \<Rightarrow> Inr (str_join '','' ss))"
| "ToStrings ns [] = Inr []"
| "ToStrings ns (JNull # xs) =
     (case ToStrings ns xs of Inl e \<Rightarrow> Inl e | Inr ss \<Rightarrow> Inr ([] # ss))"
| "ToStrings ns (x # xs) =
     (case ToString ns x of
        Inl e \<Rightarrow> Inl e
      | Inr s \<Rightarrow> (case ToStrings ns xs of Inl e \<Rightarrow> Inl e | Inr ss \<Rightarrow> Inr (s # ss)))"

text \<open>
  \<open>v == "NAME"\<close> for the module and operation names the code compares with. None of
  them is numeric, so no number, boolean, null or undefined equals one; an array or an
  object is converted to its string first.
\<close>

definition loose_eq :: "runtime \<Rightarrow> json option \<Rightarrow> string \<Rightarrow> error + bool" where
  "loose_eq rt v name =
     (case v of
        None \<Rightarrow> Inr False
      | Some JNull \<Rightarrow> Inr False
      | Some (JBool b) \<Rightarrow> Inr False
      | Some (JNum n) \<Rightarrow> Inr False
      | Some (JStr s) \<Rightarrow> Inr (s = name)
      | Some j \<Rightarrow> (case ToString (num_str rt) j of Inl e \<Rightarrow> Inl e | Inr s \<Rightarrow> Inr (s = name)))"

definition hex_digit :: "nat \<Rightarrow> char" where
  "hex_digit n = ''0123456789ABCDEF'' ! (n mod 16)"

definition hexUpper :: "buffer \<Rightarrow> string" where
  "hexUpper buf = concat (map (\<lambda>b. [hex_digit (unat b div 16), hex_digit (unat b)]) buf)"

lemma member_of_simps [simp]:
  "member_of (JObj kvs) k = map_of kvs k"
  "member_of JNull k = None"
  "member_of (JBool b) k = None"
  "member_of (JNum n) k = None"
  "member_of (JStr t) k = None"
  "member_of (JArr xs) k = None"
  by (simp_all add: member_of_def)

lemma or_default_simps [simp]:
  "or_default None d = d"
  "or_default (Some j) d = (if truthy j then j else d)"
  by (simp_all add: or_default_def)

lemma loose_eq_simps [simp]:
  "loose_eq rt (Some (JStr s)) name = Inr (s = name)"
  "loose_eq rt None name = Inr False"
  by (simp_all add: loose_eq_def)

lemma ToString_error:
  "ToString ns j = Inl e \<Longrightarrow> e = TypeError"
  "ToStrings ns js = Inl e \<Longrightarrow> e = TypeError"
  by (induction ns j and ns js rule: ToString_ToStrings.induct)
     (auto split: if_splits sum.splits)

section \<open>video\_server.js: the packet parser\<close>

record packet =
  version :: nat
  padding :: nat
  marker :: nat
  csrcCount :: nat
  payloadType :: nat
  ssrc :: nat
  payloadLen :: nat
  reserve :: nat
  csrcList :: "nat list"
  payload :: payload
  totalLength :: nat

definition parsePacket :: "runtime \<Rightarrow> buffer \<Rightarrow> packet option" where
  "parsePacket rt buf =
     (if length buf < 12 then None
      else
        let firstByte = readUInt8 buf 0;
            payloadType' = readUInt8 buf 1;
            payloadLen' = readUInt32BE buf 4;
            totalLen = 12 + payloadLen'
        in if length buf < totalLen then None
           else
             let payloadBuffer = subarray buf 12 totalLen;
                 text = str_trim rt (utf8_decode rt payloadBuffer)
             in Some \<lparr>
                  version = drop_bit 6 firstByte AND 3,
                  padding = drop_bit 5 firstByte AND 1,
                  marker = drop_bit 4 firstByte AND 1,
                  csrcCount = firstByte AND 15,
                  payloadType = payloadType',
                  ssrc = readUInt16BE buf 2,
                  payloadLen = payloadLen',
                  reserve = readUInt32BE buf 8,
                  csrcList = [],
                  payload =
                    (if payloadType' = 0 \<or> payloadType' = 1
                     then (case json_parse rt text of
                             Some v \<Rightarrow> Value v
                           | None \<Rightarrow> Value (JStr text))
                     else Binary payloadBuffer),
                  totalLength = totalLen \<rparr>)"

section \<open>The control server (part\_000): header parser\<close>

record n9m_header =
  h_version :: nat
  h_payloadType :: nat
  h_ssrc :: nat
  h_payloadLen :: nat
  h_headerLen :: nat

record n9m_frame =
  header :: n9m_header
  f_payload :: buffer
  f_rest :: buffer

definition parseN9M_ctrl :: "buffer \<Rightarrow> n9m_frame option" where
  "parseN9M_ctrl buf =
     (if length buf < 12 then None
      else
        let b0 = readUInt8 buf 0;
            payloadLen' = readUInt32BE buf 6;
            headerLen = 12
        in if length buf = 12 then None
           else Some \<lparr>
                  header = \<lparr> h_version = drop_bit 6 b0 AND 3,
                             h_payloadType = readUInt8 buf 1,
                             h_ssrc = readUInt32BE buf 2,
                             h_payloadLen = payloadLen',
                             h_headerLen = headerLen \<rparr>,
                  f_payload = subarray buf headerLen (headerLen + payloadLen'),
                  f_rest = drop (headerLen + payloadLen') buf \<rparr>)"

section \<open>The transmit-mode server (part\_001): parser with sticky buffer\<close>

record n9m_packet =
  pt :: nat
  chan :: nat
  body :: buffer
  rest :: buffer

definition parseN9M :: "buffer \<Rightarrow> n9m_packet option" where
  "parseN9M buf =
     (if length buf < 8 then None
      else
        let vpmcc = readUInt8 buf 0;
            cc = vpmcc AND 15;
            payloadLen' = readUInt32BE buf 4;
            headerLen = 8 + cc * 4
        in if length buf < headerLen + payloadLen' then None
           else Some \<lparr> pt = readUInt8 buf 1,
                        chan = readUInt16BE buf 2,
                        body = subarray buf headerLen (headerLen + payloadLen'),
                        rest = drop (headerLen + payloadLen') buf \<rparr>)"

section \<open>Facts about the parsers\<close>

lemma readUInt8_append:
  "off < length a \<Longrightarrow> readUInt8 (a @ b) off = readUInt8 a off"
  by (simp add: readUInt8_def nth_append)

lemma readUInt16BE_append:
  "off + 1 < length a \<Longrightarrow> readUInt16BE (a @ b) off = readUInt16BE a off"
  by (simp add: readUInt16BE_def readUInt8_append)

lemma readUInt32BE_append:
  "off + 3 < length a \<Longrightarrow> readUInt32BE (a @ b) off = readUInt32BE a off"
  by (simp add: readUInt32BE_def readUInt8_append)

lemma subarray_append:
  "e \<le> length a \<Longrightarrow> subarray (a @ b) s e = subarray a s e"
  by (simp add: subarray_def)

lemma length_subarray:
  "e \<le> length buf \<Longrightarrow> length (subarray buf s e) = e - s"
  by (simp add: subarray_def)

lemma parsePacket_None_iff:
  "parsePacket rt buf = None \<longleftrightarrow> length buf < 12 \<or> length buf < 12 + readUInt32BE buf 4"
  by (simp add: parsePacket_def Let_def)

lemma parsePacket_Some:
  assumes "parsePacket rt buf = Some p"
  shows "12 \<le> length buf"
    and "payloadLen p = readUInt32BE buf 4"
    and "totalLength p = 12 + payloadLen p"
    and "totalLength p \<le> length buf"
    and "payloadType p = readUInt8 buf 1"
  using assms by (auto simp: parsePacket_def Let_def split: if_splits)

lemma parsePacket_append:
  assumes "parsePacket rt buf = Some p"
  shows "parsePacket rt (buf @ ext) = Some p"
proof -
  from assms have len: "12 \<le> length buf" "12 + readUInt32BE buf 4 \<le> length buf"
    by (auto simp: parsePacket_def Let_def split: if_splits)
  have r: "\<And>off. off < 12 \<Longrightarrow> readUInt8 (buf @ ext) off = readUInt8 buf off"
    "\<And>off. off < 11 \<Longrightarrow> readUInt16BE (buf @ ext) off = readUInt16BE buf off"
    "\<And>off. off < 9 \<Longrightarrow> readUInt32BE (buf @ ext) off = readUInt32BE buf off"
    using len(1) by (auto simp: readUInt8_def readUInt16BE_def readUInt32BE_def nth_append)
  have s: "subarray (buf @ ext) 12 (12 + readUInt32BE buf 4) = subarray buf 12 (12 + readUInt32BE buf 4)"
    using len(2) by (rule subarray_append)
  have "parsePacket rt (buf @ ext) = parsePacket rt buf"
    using len by (simp add: parsePacket_def Let_def r s)
  with assms show ?thesis by simp
qed

lemma parseN9M_Some:
  assumes "parseN9M buf = Some p"
  shows "8 \<le> length buf"
    and "rest p = drop (8 + (readUInt8 buf 0 AND 15) * 4 + readUInt32BE buf 4) buf"
    and "8 + (readUInt8 buf 0 AND 15) * 4 + readUInt32BE buf 4 \<le> length buf"
    and "length (rest p) < length buf"
  using assms by (auto simp: parseN9M_def Let_def split: if_splits)

lemma parseN9M_append:
  assumes "parseN9M buf = Some p"
  shows "parseN9M (buf @ ext) = Some (p\<lparr>rest := rest p @ ext\<rparr>)"
proof -
  let ?n = "8 + (readUInt8 buf 0 AND 15) * 4 + readUInt32BE buf 4"
  from assms have len: "8 \<le> length buf" "?n \<le> length buf"
    by (auto simp: parseN9M_def Let_def split: if_splits)
  have r: "\<And>off. off < 8 \<Longrightarrow> readUInt8 (buf @ ext) off = readUInt8 buf off"
    "\<And>off. off < 7 \<Longrightarrow> readUInt16BE (buf @ ext) off = readUInt16BE buf off"
    "\<And>off. off < 5 \<Longrightarrow> readUInt32BE (buf @ ext) off = readUInt32BE buf off"
    using len(1) by (auto simp: readUInt8_def readUInt16BE_def readUInt32BE_def nth_append)
  have s: "subarray (buf @ ext) (8 + (readUInt8 buf 0 AND 15) * 4) ?n
             = subarray buf (8 + (readUInt8 buf 0 AND 15) * 4) ?n"
    using len(2) by (rule subarray_append)
  have p: "p = \<lparr> pt = readUInt8 buf 1, chan = readUInt16BE buf 2,
                 body = subarray buf (8 + (readUInt8 buf 0 AND 15) * 4) ?n,
                 rest = drop ?n buf \<rparr>"
    using assms len by (simp add: parseN9M_def Let_def)
  have "parseN9M (buf @ ext)
          = Some \<lparr> pt = readUInt8 buf 1, chan = readUInt16BE buf 2,
                    body = subarray buf (8 + (readUInt8 buf 0 AND 15) * 4) ?n,
                    rest = drop ?n buf @ ext \<rparr>"
    using len by (simp add: parseN9M_def Let_def r s)
  then show ?thesis by (simp add: p)
qed


lemma parsePacket_complete:
  assumes "parsePacket rt buf = Some p"
  shows "12 + payloadLen p \<le> length buf"
    and "length (subarray buf 12 (totalLength p)) = payloadLen p"
  using parsePacket_Some[OF assms] by (simp_all add: length_subarray)

lemma parseN9M_complete:
  assumes "parseN9M buf = Some p"
  shows "length (body p) = readUInt32BE buf 4"
  using assms by (auto simp: parseN9M_def Let_def length_subarray split: if_splits)

section \<open>The receive loops\<close>

text \<open>
  The \<open>data\<close> handler of video\_server.js appends the chunk to the retained buffer and
  parses until the parser answers null, cutting each parsed packet off the front. The
  work done on a packet is the argument \<open>h\<close>; an exception it raises leaves the
  handler (\<open>Inl\<close>).
\<close>

function data_loop ::
  "runtime \<Rightarrow> (packet \<Rightarrow> 's \<Rightarrow> error + 's) \<Rightarrow> 's \<Rightarrow> buffer \<Rightarrow> error + ('s \<times> buffer)" where
  "data_loop rt h s buf =
     (if length buf > 0 then
        (case parsePacket rt buf of
           None \<Rightarrow> Inr (s, buf)
         | Some packet \<Rightarrow>
             (case h packet s of
                Inl e \<Rightarrow> Inl e
              | Inr s' \<Rightarrow> data_loop rt h s' (drop (totalLength packet) buf)))
      else Inr (s, buf))"
  by pat_completeness auto
termination
  by (relation "measure (\<lambda>(rt, h, s, buf). length buf)") (auto dest: parsePacket_Some)

declare data_loop.simps [simp del]

fun feed_chunks ::
  "runtime \<Rightarrow> (packet \<Rightarrow> 's \<Rightarrow> error + 's) \<Rightarrow> 's \<Rightarrow> buffer \<Rightarrow> buffer list \<Rightarrow> error + ('s \<times> buffer)" where
  "feed_chunks rt h s buf [] = Inr (s, buf)"
| "feed_chunks rt h s buf (chunk # chunks) =
     (case data_loop rt h s (buf @ chunk) of
        Inl e \<Rightarrow> Inl e
      | Inr (s', buf') \<Rightarrow> feed_chunks rt h s' buf' chunks)"

definition collect :: "'p \<Rightarrow> 'p list \<Rightarrow> error + 'p list" where
  "collect p acc = Inr (acc @ [p])"

text \<open>
  The \<open>data\<close> handler of the transmit-mode server: the same loop over \<open>parseN9M\<close>,
  which hands the remainder back in \<open>rest\<close>. \<open>handlePacket\<close> takes the packet's type,
  channel and payload.
\<close>

function recv_loop ::
  "(nat \<Rightarrow> nat \<Rightarrow> buffer \<Rightarrow> 's \<Rightarrow> error + 's) \<Rightarrow> 's \<Rightarrow> buffer \<Rightarrow> error + ('s \<times> buffer)" where
  "recv_loop h s buf =
     (case parseN9M buf of
        None \<Rightarrow> Inr (s, buf)
      | Some pkt \<Rightarrow>
          (case h (pt pkt) (chan pkt) (body pkt) s of
             Inl e \<Rightarrow> Inl e
           | Inr s' \<Rightarrow> recv_loop h s' (rest pkt)))"
  by pat_completeness auto
termination
  by (relation "measure (\<lambda>(h, s, buf). length buf)") (auto dest: parseN9M_Some(4))

declare recv_loop.simps [simp del]

fun recv_chunks ::
  "(nat \<Rightarrow> nat \<Rightarrow> buffer \<Rightarrow> 's \<Rightarrow> error + 's) \<Rightarrow> 's \<Rightarrow> buffer \<Rightarrow> buffer list \<Rightarrow> error + ('s \<times> buffer)" where
  "recv_chunks h s buf [] = Inr (s, buf)"
| "recv_chunks h s buf (chunk # chunks) =
     (case recv_loop h s (buf @ chunk) of
        Inl e \<Rightarrow> Inl e
      | Inr (s', buf') \<Rightarrow> recv_chunks h s' buf' chunks)"

definition collect3 :: "nat \<Rightarrow> nat \<Rightarrow> buffer \<Rightarrow> (nat \<times> nat \<times> buffer) list \<Rightarrow> error + (nat \<times> nat \<times> buffer) list" where
  "collect3 t c b acc = Inr (acc @ [(t, c, b)])"

subsection \<open>Chunking does not change what the loops decode\<close>

definition waiting :: "runtime \<Rightarrow> buffer \<Rightarrow> bool" where
  "waiting rt buf \<longleftrightarrow> buf = [] \<or> parsePacket rt buf = None"

lemma data_loop_waiting:
  "waiting rt buf \<Longrightarrow> data_loop rt h s buf = Inr (s, buf)"
  by (auto simp: waiting_def data_loop.simps)

lemma data_loop_result_waiting:
  "data_loop rt h s buf = Inr (s', buf') \<Longrightarrow> waiting rt buf'"
proof (induction rt h s buf rule: data_loop.induct)
  case (1 rt h s buf)
  show ?case
  proof (cases "length buf > 0")
    case False
    with "1.prems" show ?thesis by (simp add: data_loop.simps waiting_def)
  next
    case True
    show ?thesis
    proof (cases "parsePacket rt buf")
      case None
      with True "1.prems" show ?thesis by (simp add: data_loop.simps waiting_def)
    next
      case (Some packet)
      show ?thesis
      proof (cases "h packet s")
        case (Inl e)
        with True Some "1.prems" show ?thesis by (simp add: data_loop.simps)
      next
        case (Inr s1)
        with True Some "1.prems"
        have "data_loop rt h s1 (drop (totalLength packet) buf) = Inr (s', buf')"
          by (simp add: data_loop.simps)
        with "1.IH"[OF True Some Inr] show ?thesis .
      qed
    qed
  qed
qed

lemma data_loop_append:
  "data_loop rt h s (buf @ ext) =
     (case data_loop rt h s buf of
        Inl e \<Rightarrow> Inl e
      | Inr (s', buf') \<Rightarrow> data_loop rt h s' (buf' @ ext))"
proof (induction rt h s buf rule: data_loop.induct)
  case (1 rt h s buf)
  show ?case
  proof (cases "length buf > 0")
    case False
    then show ?thesis by (simp add: data_loop.simps[of rt h s "[]"])
  next
    case True
    show ?thesis
    proof (cases "parsePacket rt buf")
      case None
      with True show ?thesis by (simp add: data_loop.simps[of rt h s buf])
    next
      case (Some packet)
      have fit: "totalLength packet \<le> length buf"
        using parsePacket_Some(4)[OF Some] .
      have ext: "parsePacket rt (buf @ ext) = Some packet"
        using parsePacket_append[OF Some] .
      show ?thesis
      proof (cases "h packet s")
        case (Inl e)
        with True Some ext show ?thesis
          by (simp add: data_loop.simps[of rt h s buf] data_loop.simps[of rt h s "buf @ ext"])
      next
        case (Inr s1)
        have "data_loop rt h s (buf @ ext) = data_loop rt h s1 (drop (totalLength packet) buf @ ext)"
          using True ext Inr fit by (simp add: data_loop.simps[of rt h s "buf @ ext"])
        also have "\<dots> = (case data_loop rt h s1 (drop (totalLength packet) buf) of
                            Inl e \<Rightarrow> Inl e
                          | Inr (s', buf') \<Rightarrow> data_loop rt h s' (buf' @ ext))"
          using "1.IH"[OF True Some Inr] .
        also have "data_loop rt h s1 (drop (totalLength packet) buf) = data_loop rt h s buf"
          using True Some Inr by (simp add: data_loop.simps[of rt h s buf])
        finally show ?thesis .
      qed
    qed
  qed
qed

lemma feed_chunks_whole:
  "waiting rt buf \<Longrightarrow> feed_chunks rt h s buf chunks = data_loop rt h s (buf @ concat chunks)"
proof (induction chunks arbitrary: s buf)
  case Nil
  then show ?case by (simp add: data_loop_waiting)
next
  case (Cons chunk chunks)
  show ?case
  proof (cases "data_loop rt h s (buf @ chunk)")
    case (Inl e)
    then show ?thesis
      using data_loop_append[of rt h s "buf @ chunk" "concat chunks"] by simp
  next
    case (Inr r)
    obtain s1 buf1 where r: "r = (s1, buf1)" by (cases r)
    have w: "waiting rt buf1"
      using data_loop_result_waiting[of rt h s "buf @ chunk" s1 buf1] Inr r by simp
    show ?thesis
      using Inr r Cons.IH[OF w, of s1]
        data_loop_append[of rt h s "buf @ chunk" "concat chunks"] by simp
  qed
qed

lemma recv_loop_waiting:
  "parseN9M buf = None \<Longrightarrow> recv_loop h s buf = Inr (s, buf)"
  by (simp add: recv_loop.simps)

lemma recv_loop_result_waiting:
  "recv_loop h s buf = Inr (s', buf') \<Longrightarrow> parseN9M buf' = None"
proof (induction h s buf rule: recv_loop.induct)
  case (1 h s buf)
  show ?case
  proof (cases "parseN9M buf")
    case None
    with "1.prems" show ?thesis by (simp add: recv_loop.simps)
  next
    case (Some pkt)
    show ?thesis
    proof (cases "h (pt pkt) (chan pkt) (body pkt) s")
      case (Inl e)
      with Some "1.prems" show ?thesis by (simp add: recv_loop.simps)
    next
      case (Inr s1)
      with Some "1.prems" have "recv_loop h s1 (rest pkt) = Inr (s', buf')"
        by (simp add: recv_loop.simps)
      with "1.IH"[OF Some Inr] show ?thesis .
    qed
  qed
qed

lemma recv_loop_append:
  "recv_loop h s (buf @ ext) =
     (case recv_loop h s buf of
        Inl e \<Rightarrow> Inl e
      | Inr (s', buf') \<Rightarrow> recv_loop h s' (buf' @ ext))"
proof (induction h s buf rule: recv_loop.induct)
  case (1 h s buf)
  show ?case
  proof (cases "parseN9M buf")
    case None
    then show ?thesis by (simp add: recv_loop.simps[of h s buf])
  next
    case (Some pkt)
    have ext: "parseN9M (buf @ ext) = Some (pkt\<lparr>rest := rest pkt @ ext\<rparr>)"
      using parseN9M_append[OF Some] .
    show ?thesis
    proof (cases "h (pt pkt) (chan pkt) (body pkt) s")
      case (Inl e)
      with Some ext show ?thesis
        by (simp add: recv_loop.simps[of h s buf] recv_loop.simps[of h s "buf @ ext"])
    next
      case (Inr s1)
      have "recv_loop h s (buf @ ext) = recv_loop h s1 (rest pkt @ ext)"
        using ext Inr by (simp add: recv_loop.simps[of h s "buf @ ext"])
      also have "\<dots> = (case recv_loop h s1 (rest pkt) of
                          Inl e \<Rightarrow> Inl e
                        | Inr (s', buf') \<Rightarrow> recv_loop h s' (buf' @ ext))"
        using "1.IH"[OF Some Inr] .
      also have "recv_loop h s1 (rest pkt) = recv_loop h s buf"
        using Some Inr by (simp add: recv_loop.simps[of h s buf])
      finally show ?thesis .
    qed
  qed
qed

lemma recv_chunks_whole:
  "parseN9M buf = None \<Longrightarrow> recv_chunks h s buf chunks = recv_loop h s (buf @ concat chunks)"
proof (induction chunks arbitrary: s buf)
  case Nil
  then show ?case by (simp add: recv_loop_waiting)
next
  case (Cons chunk chunks)
  show ?case
  proof (cases "recv_loop h s (buf @ chunk)")
    case (Inl e)
    then show ?thesis
      using recv_loop_append[of h s "buf @ chunk" "concat chunks"] by simp
  next
    case (Inr r)
    obtain s1 buf1 where r: "r = (s1, buf1)" by (cases r)
    have w: "parseN9M buf1 = None"
      using recv_loop_result_waiting[of h s "buf @ chunk" s1 buf1] Inr r by simp
    show ?thesis
      using Inr r Cons.IH[OF w, of s1]
        recv_loop_append[of h s "buf @ chunk" "concat chunks"] by simp
  qed
qed


section \<open>video\_server.js: the signalling server\<close>

text \<open>
  \<open>devices\<close> is the registry object of the module, keyed by the session converted to
  a property key, and shared by every connection; the other fields belong to one socket:
  what was written to it, the writes a one-second timer still holds, the lines appended
  to the log files, the retained bytes and the current session id. No path of the file
  ends or destroys the socket.
\<close>

record device =
  session :: json
  dsno :: "json option"
  carnum :: "json option"
  channel :: "json option"
  devname :: "json option"
  devclass :: "json option"
  devtype :: "json option"
  net :: "json option"
  pro :: "json option"

record server =
  devices :: "string \<rightharpoonup> device"
  draws :: nat
  written :: "buffer list"
  delayed :: "buffer list"
  logs :: "(string \<times> packet) list"
  buffer :: buffer
  sessionId :: json

definition generateSO :: "runtime \<Rightarrow> server \<Rightarrow> string \<times> server" where
  "generateSO rt st = (hexUpper (randomBytes8 rt (draws st)), st\<lparr>draws := draws st + 1\<rparr>)"

definition getCarNum :: "runtime \<Rightarrow> server \<Rightarrow> json \<Rightarrow> error + json" where
  "getCarNum rt st sid =
     (case ToString (num_str rt) sid of
        Inl e \<Rightarrow> Inl e
      | Inr key \<Rightarrow>
          Inr (case devices st key of
                 None \<Rightarrow> JStr []
               | Some d \<Rightarrow> or_default (carnum d) (JStr [])))"

definition carNumText :: "runtime \<Rightarrow> server \<Rightarrow> json \<Rightarrow> error + string" where
  "carNumText rt st sid =
     (case getCarNum rt st sid of
        Inl e \<Rightarrow> Inl e
      | Inr c \<Rightarrow> ToString (num_str rt) c)"

definition logPacket :: "runtime \<Rightarrow> json \<Rightarrow> packet \<Rightarrow> server \<Rightarrow> error + server" where
  "logPacket rt sid packet st =
     (if \<not> truthy sid then Inr st
      else (case carNumText rt st sid of
              Inl e \<Rightarrow> Inl e
            | Inr name \<Rightarrow>
                if writeFileSync_ok rt name
                then Inr (st\<lparr>logs := logs st @ [(name, packet)]\<rparr>)
                else Inl IOError))"

definition buildPacket :: "runtime \<Rightarrow> json \<Rightarrow> nat \<Rightarrow> nat \<Rightarrow> buffer" where
  "buildPacket rt payloadObj ptype chan_id =
     (let payloadBuf = utf8_encode rt (json_stringify rt payloadObj);
          firstByte = push_bit 6 0 OR push_bit 5 0 OR push_bit 4 0 OR 0
      in uint8 firstByte @ uint8 ptype @ uint16BE chan_id
           @ uint32BE (length payloadBuf) @ uint32BE 0 @ payloadBuf)"

definition non_null :: "json option \<Rightarrow> error + json" where
  "non_null v = (case v of None \<Rightarrow> Inl TypeError | Some JNull \<Rightarrow> Inl TypeError | Some j \<Rightarrow> Inr j)"

definition certificate_reply :: "json \<Rightarrow> json \<Rightarrow> json \<Rightarrow> json" where
  "certificate_reply msg sess response =
     JObj (literal [(''MODULE'', Some (JStr ''CERTIFICATE'')),
                    (''OPERATION'', member_of msg ''OPERATION''),
                    (''RESPONSE'', Some response),
                    (''SESSION'', Some sess)])"

definition connect_response :: "string \<Rightarrow> json \<Rightarrow> json" where
  "connect_response so msg =
     JObj [(''SO'', JStr so),
           (''ERRORCODE'', JNum 0),
           (''ERRORCAUSE'', JStr ''SUCCESS''),
           (''PRO'', or_default (get_opt (member_of msg ''PARAMETER'') ''PRO'') (JStr ''1.0.5'')),
           (''MASKCMD'', JNum 1)]"

definition device_of :: "json \<Rightarrow> json \<Rightarrow> device" where
  "device_of sess par =
     \<lparr> session = sess,
       dsno = member_of par ''DSNO'',
       carnum = member_of par ''CARNUM'',
       channel = member_of par ''CHANNEL'',
       devname = member_of par ''DEVNAME'',
       devclass = member_of par ''DEVCLASS'',
       devtype = member_of par ''DEVTYPE'',
       net = member_of par ''NET'',
       pro = member_of par ''PRO'' \<rparr>"

definition certificate_connect ::
  "runtime \<Rightarrow> json \<Rightarrow> json \<Rightarrow> server \<Rightarrow> (error + json option) \<times> server" where
  "certificate_connect rt msg sess st =
     (let (so, st1) = generateSO rt st;
          respJson = certificate_reply msg sess (connect_response so msg)
      in case ToString (num_str rt) sess of
           Inl e \<Rightarrow> (Inl e, st1)
         | Inr key \<Rightarrow>
             (case non_null (member_of msg ''PARAMETER'') of
                Inl e \<Rightarrow> (Inl e, st1)
              | Inr par \<Rightarrow>
                  (Inr (Some respJson),
                   st1\<lparr>devices := (devices st1)(key \<mapsto> device_of sess par)\<rparr>)))"

definition request_stream :: "json \<Rightarrow> json \<Rightarrow> json" where
  "request_stream par sess =
     JObj [(''MODULE'', JStr ''MEDIASTREAMMODEL''),
           (''OPERATION'', JStr ''REQUESTSTREAM''),
           (''PARAMETER'',
              JObj (literal [(''STREAMTYPE'', Some (JNum (- 1))),
                             (''STREAMNAME'', member_of par ''STREAMNAME''),
                             (''CSRC'', member_of par ''CSRC''),
                             (''SSRC'', member_of par ''SSRC'')])),
           (''SESSION'', sess)]"

text \<open>The \<open>switch (msg.MODULE)\<close> of \<open>handleMessagePacket\<close>: the response, or null.\<close>

definition switch_module ::
  "runtime \<Rightarrow> json \<Rightarrow> json \<Rightarrow> server \<Rightarrow> (error + json option) \<times> server" where
  "switch_module rt msg sess st =
     (if member_of msg ''MODULE'' = Some (JStr ''CERTIFICATE'') then
        (case loose_eq rt (member_of msg ''OPERATION'') ''CONNECT'' of
           Inl e \<Rightarrow> (Inl e, st)
         | Inr True \<Rightarrow> certificate_connect rt msg sess st
         | Inr False \<Rightarrow>
             (case loose_eq rt (member_of msg ''OPERATION'') ''KEEPALIVE'' of
                Inl e \<Rightarrow> (Inl e, st)
              | Inr True \<Rightarrow> (Inr (Some (certificate_reply msg sess (JObj []))), st)
              | Inr False \<Rightarrow>
                  (case loose_eq rt (member_of msg ''OPERATION'') ''CREATESTREAM'' of
                     Inl e \<Rightarrow> (Inl e, st)
                   | Inr True \<Rightarrow>
                       (Inr (Some (certificate_reply msg sess
                          (JObj [(''ERRORCODE'', JNum 0), (''ERRORCAUSE'', JStr ''SUCCESS'')]))), st)
                   | Inr False \<Rightarrow> (Inr (Some (certificate_reply msg sess (JObj []))), st))))
      else if member_of msg ''MODULE'' = Some (JStr ''MEDIASTREAMMODEL'') then
        (case loose_eq rt (member_of msg ''OPERATION'') ''MEDIATASKSTART'' of
           Inl e \<Rightarrow> (Inl e, st)
         | Inr True \<Rightarrow>
             (case non_null (member_of msg ''PARAMETER'') of
                Inl e \<Rightarrow> (Inl e, st)
              | Inr par \<Rightarrow> (Inr (Some (request_stream par sess)), st))
         | Inr False \<Rightarrow> (Inr None, st))
      else (Inr None, st))"

definition request_alive_video :: "json \<Rightarrow> json" where
  "request_alive_video msg =
     JObj [(''MODULE'', JStr ''MEDIASTREAMMODEL''),
           (''OPERATION'', JStr ''REQUESTALIVEVIDEO''),
           (''PARAMETER'',
              JObj [(''CSRC'', JStr []),
                    (''SSRC'', JNum 0),
                    (''STREAMNAME'', JStr ''1''),
                    (''STEAMTYPE'', JNum 0),
                    (''CHANNEL'', JNum 1),
                    (''AUDIOVALID'', JNum 0),
                    (''IPANDPORT'', JStr ''91.238.164.100:5556''),
                    (''FRAMECOUNT'', JNum 10),
                    (''FRAMEMODE'', JNum 0)]),
           (''SESSION'', or_default (member_of msg ''SESSION'') (JStr []))]"

text \<open>
  The line \<open>msg.MODULE == "CERTIFICATE" && msg.OPERATION == "CONNECT"\<close> that decides
  whether the stream request is scheduled.
\<close>

definition is_connect :: "runtime \<Rightarrow> json \<Rightarrow> error + bool" where
  "is_connect rt msg =
     (case loose_eq rt (member_of msg ''MODULE'') ''CERTIFICATE'' of
        Inl e \<Rightarrow> Inl e
      | Inr False \<Rightarrow> Inr False
      | Inr True \<Rightarrow> loose_eq rt (member_of msg ''OPERATION'') ''CONNECT'')"

text \<open>
  The console line of the handler: it is printed unless \<open>msg.MODULE == "EVEM"\<close>, and
  its template converts the car number to a string.
\<close>

definition console_payload :: "runtime \<Rightarrow> json \<Rightarrow> json \<Rightarrow> server \<Rightarrow> error + unit" where
  "console_payload rt msg sess st =
     (case loose_eq rt (member_of msg ''MODULE'') ''EVEM'' of
        Inl e \<Rightarrow> Inl e
      | Inr True \<Rightarrow> Inr ()
      | Inr False \<Rightarrow> (case carNumText rt st sess of Inl e \<Rightarrow> Inl e | Inr line \<Rightarrow> Inr ()))"

text \<open>
  \<open>handleMessagePacket\<close> is an async function without an await: its body runs at
  the call, and what it returns or raises settles its promise. The result is that
  outcome with the state the body left. A \<open>Buffer\<close> payload, which the caller never
  passes, has none of the members read here.
\<close>

definition handleMessagePacket ::
  "runtime \<Rightarrow> packet \<Rightarrow> json \<Rightarrow> server \<Rightarrow> (error + json) \<times> server" where
  "handleMessagePacket rt packet sid st =
     (let msg = (case payload packet of Value v \<Rightarrow> v | Binary b \<Rightarrow> JObj [])
      in case non_null (Some msg) of
           Inl e \<Rightarrow> (Inl e, st)
         | Inr m \<Rightarrow>
             (let sess = or_default (member_of msg ''SESSION'') (or_default (Some sid) (JStr []))
              in case switch_module rt msg sess st of
                   (Inl e, st1) \<Rightarrow> (Inl e, st1)
                 | (Inr respJson, st1) \<Rightarrow>
                     (let st2 = (case respJson of
                                   None \<Rightarrow> st1
                                 | Some r \<Rightarrow>
                                     st1\<lparr>written := written st1
                                            @ [buildPacket rt r (payloadType packet) (ssrc packet)]\<rparr>)
                      in case console_payload rt msg sess st2 of
                           Inl e \<Rightarrow> (Inl e, st2)
                         | Inr u \<Rightarrow>
                             (case logPacket rt sess packet st2 of
                                Inl e \<Rightarrow> (Inl e, st2)
                              | Inr st3 \<Rightarrow>
                                  (case is_connect rt msg of
                                     Inl e \<Rightarrow> (Inl e, st3)
                                   | Inr True \<Rightarrow>
                                       (Inr sess,
                                        st3\<lparr>delayed := delayed st3
                                               @ [buildPacket rt (request_alive_video msg) 0 0]\<rparr>)
                                   | Inr False \<Rightarrow> (Inr sess, st3))))))"

definition handleStreamPacket ::
  "runtime \<Rightarrow> packet \<Rightarrow> json \<Rightarrow> server \<Rightarrow> (error + unit) \<times> server" where
  "handleStreamPacket rt packet sid st =
     (case carNumText rt st sid of
        Inl e \<Rightarrow> (Inl e, st)
      | Inr line \<Rightarrow>
          (case logPacket rt sid packet st of
             Inl e \<Rightarrow> (Inl e, st)
           | Inr st1 \<Rightarrow> (Inr (), st1)))"

text \<open>
  How a promise of the loop ended: a message handler's with the session it returned,
  which the \<open>then\<close> callback stores; a stream handler's; or rejected.
\<close>

datatype settled = Session json | Done | Rejected error

text \<open>
  The body of the loop. The session id passed to the handlers is the variable's value
  when the loop runs: the \<open>then\<close> callbacks that assign it are promise jobs, run once
  the \<open>data\<close> handler has returned. A packet of another type than 0, 1, 2 and 22 is
  printed at once, outside any promise.
\<close>

definition dispatch ::
  "runtime \<Rightarrow> json \<Rightarrow> packet \<Rightarrow> server \<times> settled list \<Rightarrow> error + server \<times> settled list" where
  "dispatch rt sid packet = (\<lambda>(st, jobs).
     if payloadType packet = 0 \<or> payloadType packet = 1 then
       (case handleMessagePacket rt packet sid st of
          (Inl e, st1) \<Rightarrow> Inr (st1, jobs @ [Rejected e])
        | (Inr result, st1) \<Rightarrow> Inr (st1, jobs @ [Session result]))
     else if payloadType packet = 2 then
       (case handleStreamPacket rt packet sid st of
          (Inl e, st1) \<Rightarrow> Inr (st1, jobs @ [Rejected e])
        | (Inr u, st1) \<Rightarrow> Inr (st1, jobs @ [Done]))
     else if payloadType packet \<noteq> 22 then
       (case carNumText rt st sid of Inl e \<Rightarrow> Inl e | Inr line \<Rightarrow> Inr (st, jobs))
     else Inr (st, jobs))"

text \<open>
  The promise jobs that run once the \<open>data\<close> handler has returned. The \<open>then\<close>
  callback of a fulfilled message promise assigns the session id. A rejected promise
  finds no rejection handler: the call at the message branch passes \<open>then\<close> one
  callback only, the stream branch drops the promise, and the file listens neither for
  \<open>unhandledRejection\<close> nor for \<open>uncaughtException\<close>. When the jobs have run, Node
  (version 15 and later; the sibling servers of the repository ask for Node 16 and 18)
  raises the first such rejection as an uncaught exception, and the process ends with
  exit code 1, every connection with it.
\<close>

fun run_jobs :: "settled list \<Rightarrow> server \<Rightarrow> server" where
  "run_jobs [] st = st"
| "run_jobs (Session result # jobs) st = run_jobs jobs (st\<lparr>sessionId := result\<rparr>)"
| "run_jobs (Done # jobs) st = run_jobs jobs st"
| "run_jobs (Rejected e # jobs) st = run_jobs jobs st"

fun unhandled :: "settled list \<Rightarrow> error option" where
  "unhandled [] = None"
| "unhandled (Session result # jobs) = unhandled jobs"
| "unhandled (Done # jobs) = unhandled jobs"
| "unhandled (Rejected e # jobs) = Some e"

text \<open>
  The \<open>data\<close>, \<open>end\<close> and \<open>error\<close> handlers of a socket. \<open>Inl\<close> is the end of
  the process: an exception that leaves the handler, or a rejection that nothing
  handles.
\<close>

definition onData :: "runtime \<Rightarrow> buffer \<Rightarrow> server \<Rightarrow> error + server" where
  "onData rt chunk st =
     (case data_loop rt (dispatch rt (sessionId st)) (st, []) (buffer st @ chunk) of
        Inl e \<Rightarrow> Inl e
      | Inr ((st1, jobs), remainder) \<Rightarrow>
          (case unhandled jobs of
             Some e \<Rightarrow> Inl e
           | None \<Rightarrow> Inr (run_jobs jobs (st1\<lparr>buffer := remainder\<rparr>))))"

definition onEnd :: "runtime \<Rightarrow> server \<Rightarrow> error + server" where
  "onEnd rt st = (case carNumText rt st (sessionId st) of Inl e \<Rightarrow> Inl e | Inr line \<Rightarrow> Inr st)"

definition onError :: "runtime \<Rightarrow> server \<Rightarrow> error + server" where
  "onError rt st = (case carNumText rt st (sessionId st) of Inl e \<Rightarrow> Inl e | Inr line \<Rightarrow> Inr st)"

section \<open>A runtime for the worked examples\<close>

text \<open>
  The concrete evaluations below run on this instance: ASCII text, a serialiser for
  values whose strings need no escape, a parser that knows the serialised form of
  the listed documents and rejects every other text, and a log directory without a
  subdirectory \<open>a\<close>, so that the log file of the car number \<open>a/b\<close> cannot be
  opened (ENOENT) while every other one can.
\<close>

definition digit_char :: "nat \<Rightarrow> char" where
  "digit_char n = ''0123456789'' ! (n mod 10)"

function show_nat :: "nat \<Rightarrow> string" where
  "show_nat n = (if n < 10 then [digit_char n] else show_nat (n div 10) @ [digit_char n])"
  by pat_completeness auto
termination
  by (relation "measure (\<lambda>n. n)") auto

declare show_nat.simps [simp del]

definition show_int :: "int \<Rightarrow> string" where
  "show_int i = (if i < 0 then CHR ''-'' # show_nat (nat (- i)) else show_nat (nat i))"

definition quoted :: "string \<Rightarrow> string" where
  "quoted s = [CHR 0x22] @ s @ [CHR 0x22]"

fun show_json :: "json \<Rightarrow> string"
  and show_elems :: "json list \<Rightarrow> string"
  and show_members :: "(string \<times> json) list \<Rightarrow> string" where
  "show_json JNull = ''null''"
| "show_json (JBool b) = (if b then ''true'' else ''false'')"
| "show_json (JNum n) = show_int n"
| "show_json (JStr s) = quoted s"
| "show_json (JArr xs) = ''['' @ show_elems xs @ '']''"
| "show_json (JObj kvs) = ''{'' @ show_members kvs @ ''}''"
| "show_elems [] = []"
| "show_elems [x] = show_json x"
| "show_elems (x # y # ys) = show_json x @ '','' @ show_elems (y # ys)"
| "show_members [] = []"
| "show_members [(k, v)] = quoted k @ '':'' @ show_json v"
| "show_members ((k, v) # m # ms) = quoted k @ '':'' @ show_json v @ '','' @ show_members (m # ms)"

definition is_space :: "char \<Rightarrow> bool" where
  "is_space c \<longleftrightarrow> c \<in> set [CHR '' '', CHR 0x09, CHR 0x0A, CHR 0x0B, CHR 0x0C, CHR 0x0D]"

definition trim_ascii :: "string \<Rightarrow> string" where
  "trim_ascii s = rev (dropWhile is_space (rev (dropWhile is_space s)))"

definition connect_abc :: json where
  "connect_abc =
     JObj [(''MODULE'', JStr ''CERTIFICATE''),
           (''OPERATION'', JStr ''CONNECT''),
           (''SESSION'', JStr ''abc''),
           (''PARAMETER'',
              JObj [(''DSNO'', JStr ''D1''), (''CARNUM'', JStr ''CAR1''), (''CHANNEL'', JNum 4),
                    (''DEVNAME'', JStr ''bus''), (''DEVCLASS'', JNum 4), (''DEVTYPE'', JNum 1),
                    (''NET'', JNum 0), (''PRO'', JStr ''1.0.6'')])]"

definition keepalive_plain :: json where
  "keepalive_plain = JObj [(''MODULE'', JStr ''CERTIFICATE''), (''OPERATION'', JStr ''KEEPALIVE'')]"


definition connect_abc_slash :: json where
  "connect_abc_slash =
     JObj [(''MODULE'', JStr ''CERTIFICATE''),
           (''OPERATION'', JStr ''CONNECT''),
           (''SESSION'', JStr ''abc''),
           (''PARAMETER'',
              JObj [(''DSNO'', JStr ''D2''), (''CARNUM'', JStr ''a/b''), (''CHANNEL'', JNum 8),
                    (''DEVNAME'', JStr ''van''), (''DEVCLASS'', JNum 4), (''DEVTYPE'', JNum 2),
                    (''NET'', JNum 1), (''PRO'', JStr ''1.0.7'')])]"


definition connect_no_parameter :: json where
  "connect_no_parameter =
     JObj [(''MODULE'', JStr ''CERTIFICATE''),
           (''OPERATION'', JStr ''CONNECT''),
           (''SESSION'', JStr ''s1'')]"

text \<open>The packet the parser returns for a signal frame on channel 1 that carries the document.\<close>

definition signal_packet :: "json \<Rightarrow> packet" where
  "signal_packet j =
     \<lparr> version = 0, padding = 0, marker = 0, csrcCount = 0, payloadType = 0, ssrc = 1,
       payloadLen = length (show_json j), reserve = 0, csrcList = [], payload = Value j,
       totalLength = 12 + length (show_json j) \<rparr>"


definition sample_documents :: "json list" where
  "sample_documents = [connect_abc, keepalive_plain, connect_no_parameter, connect_abc_slash]"

definition sample_parse :: "string \<Rightarrow> json option" where
  "sample_parse s = map_of (map (\<lambda>j. (show_json j, j)) sample_documents) s"

definition sample_rt :: runtime where
  "sample_rt =
     \<lparr> json_parse = sample_parse,
       json_stringify = show_json,
       utf8_decode = map (\<lambda>b. char_of (unat b)),
       utf8_encode = map (\<lambda>c. of_nat (of_char c)),
       str_trim = trim_ascii,
       num_str = show_int,
       randomBytes8 = (\<lambda>k. map of_nat [k, k + 1, k + 2, k + 3, k + 4, k + 5, k + 6, k + 7]),
       writeFileSync_ok = (\<lambda>name. name \<noteq> ''a/b'') \<rparr>"

definition server0 :: server where
  "server0 =
     \<lparr> devices = Map.empty, draws = 0, written = [], delayed = [], logs = [],
       buffer = [], sessionId = JStr [] \<rparr>"

definition connect_frame :: buffer where
  "connect_frame = buildPacket sample_rt connect_abc 0 1"

definition keepalive_frame :: buffer where
  "keepalive_frame = buildPacket sample_rt keepalive_plain 0 1"

definition connect_reply :: buffer where
  "connect_reply =
     buildPacket sample_rt
       (certificate_reply connect_abc (JStr ''abc'') (connect_response ''0001020304050607'' connect_abc)) 0 1"

definition keepalive_reply :: "json \<Rightarrow> buffer" where
  "keepalive_reply sess = buildPacket sample_rt (certificate_reply keepalive_plain sess (JObj [])) 0 1"

definition connected_abc :: server where
  "connected_abc =
     server0\<lparr>devices := [''abc'' \<mapsto>
                 \<lparr> session = JStr ''abc'', dsno = Some (JStr ''D1''), carnum = Some (JStr ''CAR1''),
                   channel = Some (JNum 4), devname = Some (JStr ''bus''), devclass = Some (JNum 4),
                   devtype = Some (JNum 1), net = Some (JNum 0), pro = Some (JStr ''1.0.6'') \<rparr>],
             draws := 1,
             written := [connect_reply],
             delayed := [buildPacket sample_rt (request_alive_video connect_abc) 0 0],
             logs := [(''CAR1'', signal_packet connect_abc)]\<rparr>"



lemma server0_fields [simp]:
  "devices server0 = Map.empty" "draws server0 = 0" "written server0 = []" "delayed server0 = []"
  "logs server0 = []" "buffer server0 = []" "sessionId server0 = JStr []"
  by (simp_all add: server0_def)

lemma sample_token0: "hexUpper (randomBytes8 sample_rt 0) = ''0001020304050607''"
  by (simp add: sample_rt_def hexUpper_def hex_digit_def)




section \<open>Frames as the devices send them\<close>

text \<open>
  A device frame has the layout \<open>buildPacket\<close> writes. The parser reads such a frame
  back; this is how the worked examples below hand frames to the \<open>data\<close> handler.
\<close>

lemma unat_byte: "unat (of_nat n :: byte) = n mod 256"
  by (simp add: unat_of_nat)

lemma be16:
  assumes "n < 65536"
  shows "(n div 256) mod 256 * 256 + n mod 256 = (n::nat)"
proof -
  have "n div 256 < 256" using assms by (simp add: less_mult_imp_div_less)
  then have "(n div 256) mod 256 = n div 256" by simp
  then show ?thesis by simp
qed

lemma be32:
  assumes "n < 4294967296"
  shows "(n div 16777216) mod 256 * 16777216 + (n div 65536) mod 256 * 65536
           + (n div 256) mod 256 * 256 + n mod 256 = (n::nat)"
proof -
  define a where "a = n div 256"
  define b where "b = a div 256"
  define c where "c = b div 256"
  have c: "c < 256"
    using assms by (simp add: a_def b_def c_def div_mult2_eq[symmetric] less_mult_imp_div_less)
  have n: "n = a * 256 + n mod 256" by (simp add: a_def)
  have a: "a = b * 256 + a mod 256" by (simp add: b_def)
  have b: "b = c * 256 + b mod 256" by (simp add: c_def)
  have d1: "n div 65536 = b" by (simp add: a_def b_def div_mult2_eq[symmetric])
  have d2: "n div 16777216 = c" by (simp add: a_def b_def c_def div_mult2_eq[symmetric])
  have "c mod 256 * 16777216 + b mod 256 * 65536 + a mod 256 * 256 + n mod 256 = n"
    using c n a b by simp
  then show ?thesis by (simp add: d1 d2 a_def[symmetric])
qed

lemma length_uints [simp]:
  "length (uint8 v) = 1" "length (uint16BE v) = 2" "length (uint32BE v) = 4"
  by (simp_all add: uint8_def uint16BE_def uint32BE_def)

lemma header_reads:
  fixes ptype chan_id n :: nat and tail_bytes :: buffer
  assumes "ptype < 256" "chan_id < 65536" "n < 4294967296"
  defines "buf \<equiv> uint8 0 @ uint8 ptype @ uint16BE chan_id @ uint32BE n @ uint32BE 0 @ tail_bytes"
  shows "readUInt8 buf 0 = 0" "readUInt8 buf 1 = ptype" "readUInt16BE buf 2 = chan_id"
    "readUInt32BE buf 4 = n" "readUInt32BE buf 8 = 0"
    "length buf = 12 + length tail_bytes" "drop 12 buf = tail_bytes"
  using assms(1) be16[OF assms(2)] be32[OF assms(3)]
  by (simp_all add: buf_def readUInt32BE_def readUInt16BE_def readUInt8_def
        uint8_def uint16BE_def uint32BE_def unat_byte)

definition frame_payload :: "runtime \<Rightarrow> nat \<Rightarrow> buffer \<Rightarrow> payload" where
  "frame_payload rt ptype payloadBuffer =
     (if ptype = 0 \<or> ptype = 1
      then (case json_parse rt (str_trim rt (utf8_decode rt payloadBuffer)) of
              Some v \<Rightarrow> Value v
            | None \<Rightarrow> Value (JStr (str_trim rt (utf8_decode rt payloadBuffer))))
      else Binary payloadBuffer)"

definition device_frame :: "nat \<Rightarrow> nat \<Rightarrow> buffer \<Rightarrow> buffer" where
  "device_frame ptype chan_id bytes =
     uint8 0 @ uint8 ptype @ uint16BE chan_id @ uint32BE (length bytes) @ uint32BE 0 @ bytes"

definition parsed :: "runtime \<Rightarrow> nat \<Rightarrow> nat \<Rightarrow> buffer \<Rightarrow> packet" where
  "parsed rt ptype chan_id bytes =
     \<lparr> version = 0, padding = 0, marker = 0, csrcCount = 0,
       payloadType = ptype, ssrc = chan_id, payloadLen = length bytes, reserve = 0,
       csrcList = [], payload = frame_payload rt ptype bytes,
       totalLength = 12 + length bytes \<rparr>"

lemma buildPacket_device_frame:
  "buildPacket rt obj ptype chan_id = device_frame ptype chan_id (utf8_encode rt (json_stringify rt obj))"
  by (simp add: buildPacket_def device_frame_def Let_def)

lemma parsePacket_device_frame:
  assumes "ptype < 256" "chan_id < 65536" "length bytes < 4294967296"
  shows "parsePacket rt (device_frame ptype chan_id bytes @ ext) = Some (parsed rt ptype chan_id bytes)"
proof -
  let ?buf = "uint8 0 @ uint8 ptype @ uint16BE chan_id @ uint32BE (length bytes) @ uint32BE 0 @ (bytes @ ext)"
  have buf: "device_frame ptype chan_id bytes @ ext = ?buf"
    by (simp add: device_frame_def)
  note r = header_reads[OF assms, of "bytes @ ext"]
  have sub: "subarray ?buf 12 (12 + length bytes) = bytes"
    using r(7) by (simp add: subarray_def)
  have r2: "readUInt8 ?buf (Suc 0) = ptype"
    using r(2) by simp
  show ?thesis
    unfolding buf
    by (simp add: parsePacket_def Let_def r(1,3-6) r2 sub frame_payload_def parsed_def)
qed

lemma data_loop_device_frame:
  assumes "ptype < 256" "chan_id < 65536" "length bytes < 4294967296"
  shows "data_loop rt h s (device_frame ptype chan_id bytes @ ext) =
           (case h (parsed rt ptype chan_id bytes) s of
              Inl e \<Rightarrow> Inl e
            | Inr s' \<Rightarrow> data_loop rt h s' ext)"
proof -
  have len: "length (device_frame ptype chan_id bytes) = 12 + length bytes"
    by (simp add: device_frame_def)
  have cut: "drop (12 + length bytes) (device_frame ptype chan_id bytes @ ext) = ext"
    using len by simp
  show ?thesis
    by (subst data_loop.simps)
       (simp add: parsePacket_device_frame[OF assms] len cut parsed_def split: sum.split)
qed


section \<open>The transmit-mode server (part\_001): one connection\<close>

text \<open>
  An \<open>N9MConnection\<close>. Its \<open>files\<close> map keeps insertion order and holds, for a
  channel, the write stream opened for it; the streams live in \<open>streams\<close>, in the
  order of their creation, and the map names a stream by its position there. A stream
  records its file, the chunks appended to it and how often \<open>end()\<close> was called on it.
  A timer field is null, holds a running interval, or holds one that \<open>clearInterval\<close>
  has stopped. \<open>sent\<close> are the writes to the socket, \<open>broadcasts\<close> the calls of
  \<open>wsBroadcast\<close>.
\<close>

datatype timer = Unset | Running | Cleared

record sink =
  filePath :: string
  appended :: "buffer list"
  ended :: nat

record conn =
  recvBuf :: buffer
  lastActivity :: nat
  conn_dsno :: "string option"
  streamname :: "string option"
  files :: "(nat \<times> nat) list"
  wsRoomKey :: "string option"
  keepAliveTimer :: timer
  idleTimer :: timer
  streams :: "sink list"
  sent :: "buffer list"
  destroyed :: bool
  broadcasts :: "(string \<times> buffer) list"

definition heartbeat_timeoutMs :: nat where
  "heartbeat_timeoutMs = 120000"

definition str_or :: "string option \<Rightarrow> string \<Rightarrow> string" where
  "str_or a d = (case a of None \<Rightarrow> d | Some t \<Rightarrow> if t = [] then d else t)"

text \<open>
  \<open>buildN9MPacket\<close> with the eight-byte header. Its only caller, \<open>packSignal\<close>,
  passes no csrcs, type 0 and channel 0.
\<close>

definition buildN9MPacket :: "nat \<Rightarrow> nat \<Rightarrow> nat list \<Rightarrow> buffer \<Rightarrow> buffer" where
  "buildN9MPacket ptype chan_id csrcs bytes =
     (let CC = length csrcs AND 15;
          first = push_bit 6 (2 AND 3) OR push_bit 5 (0 AND 1) OR push_bit 4 (0 AND 1) OR (CC AND 15)
      in uint8 first @ uint8 (ptype AND 255) @ uint16BE (chan_id AND 65535)
           @ uint32BE (length bytes) @ concat (map uint32BE (take CC csrcs)) @ bytes)"

definition packSignal :: "runtime \<Rightarrow> json \<Rightarrow> buffer" where
  "packSignal rt j = buildN9MPacket 0 0 [] (utf8_encode rt (json_stringify rt j))"

definition operation :: "string \<Rightarrow> json" where
  "operation name = JObj [(''name'', JStr name), (''Type'', JStr ''Request-response'')]"

definition sendCreateStream :: "runtime \<Rightarrow> nat \<Rightarrow> conn \<Rightarrow> conn" where
  "sendCreateStream rt now c =
     (let c1 = (if str_or (streamname c) [] = []
                then c\<lparr>streamname := Some (''live-'' @ num_str rt (int now))\<rparr> else c);
          payload = JObj [(''module'', JStr ''certificate''),
                          (''operation'', operation ''CreateStream''),
                          (''parameter'',
                             JObj [(''vision'', JStr ''1.0.5''),
                                   (''devtype'', JNum 4),
                                   (''streamname'', JStr (str_or (streamname c1) [])),
                                   (''ipandport'', JStr []),
                                   (''dsno'', JStr (str_or (conn_dsno c1) []))])]
      in c1\<lparr>sent := sent c1 @ [packSignal rt payload]\<rparr>)"

definition sendControlStart :: "runtime \<Rightarrow> nat \<Rightarrow> conn \<Rightarrow> conn" where
  "sendControlStart rt chan_id c =
     (let p = JObj [(''module'', JStr ''mediaStreamModel''),
                    (''operation'', operation ''ControlStream''),
                    (''parameter'',
                       JObj [(''csrc'', JStr []),
                             (''pt'', JNum 2),
                             (''ssrc'', JNum (int chan_id)),
                             (''streamname'', (case streamname c of None \<Rightarrow> JNull
                                                | Some name \<Rightarrow> JStr name)),
                             (''streamtype'', JNum 1),
                             (''audiovalid'', JNum 0),
                             (''cmd'', JNum 1)])]
      in c\<lparr>sent := sent c @ [packSignal rt p]\<rparr>)"

text \<open>The tests \<open>/connect|register/i.test(op)\<close>: a search that ignores the case of ASCII letters.\<close>

definition lower :: "char \<Rightarrow> char" where
  "lower ch = (if 65 \<le> (of_char ch :: nat) \<and> (of_char ch :: nat) \<le> 90
               then char_of ((of_char ch :: nat) + 32) else ch)"

fun starts_with :: "string \<Rightarrow> string \<Rightarrow> bool" where
  "starts_with [] s = True"
| "starts_with (p # ps) [] = False"
| "starts_with (p # ps) (x # xs) = (p = lower x \<and> starts_with ps xs)"

fun found_in :: "string \<Rightarrow> string \<Rightarrow> bool" where
  "found_in pat [] = starts_with pat []"
| "found_in pat (x # xs) = (starts_with pat (x # xs) \<or> found_in pat xs)"

definition handleSignal :: "runtime \<Rightarrow> nat \<Rightarrow> buffer \<Rightarrow> conn \<Rightarrow> error + conn" where
  "handleSignal rt now buf c =
     (case json_parse rt (utf8_decode rt buf) of
        None \<Rightarrow> Inr c
      | Some msg \<Rightarrow>
          (let op = or_default (get_opt (get_opt (Some msg) ''operation'') ''name'') (JStr ''Unknown'');
               param = or_default (get_opt (Some msg) ''parameter'') (JObj []);
               resp = or_default (get_opt (Some msg) ''response'') (JObj []);
               discoveredDsno =
                 js_or (js_or (js_or (js_or (js_or (member_of param ''dsno'') (member_of resp ''dsno''))
                   (member_of param ''deviceid'')) (member_of resp ''deviceid''))
                   (member_of param ''imei'')) (member_of resp ''imei'')
           in case (case discoveredDsno of
                      None \<Rightarrow> Inr c
                    | Some d \<Rightarrow>
                        if truthy d \<and> str_or (conn_dsno c) [] = []
                        then (case ToString (num_str rt) d of
                                Inl e \<Rightarrow> Inl e
                              | Inr text \<Rightarrow>
                                  Inr (c\<lparr>conn_dsno := Some text,
                                         wsRoomKey := Some (str_or (wsRoomKey c)
                                                       (''n9m:'' @ text @ '':ch1''))\<rparr>))
                        else Inr c) of
                Inl e \<Rightarrow> Inl e
              | Inr c1 \<Rightarrow>
                  (case ToString (num_str rt) op of
                     Inl e \<Rightarrow> Inl e
                   | Inr opname \<Rightarrow>
                       if found_in ''connect'' opname \<or> found_in ''register'' opname
                       then
                         (let c2 = (if str_or (streamname c1) [] = []
                                    then c1\<lparr>streamname := Some (''live-''
                                           @ str_or (conn_dsno c1) (num_str rt (int now)))\<rparr>
                                    else c1)
                          in Inr (sendControlStart rt 1 (sendCreateStream rt now c2)))
                       else Inr c1)))"

definition handleMeta :: "runtime \<Rightarrow> nat \<Rightarrow> buffer \<Rightarrow> conn \<Rightarrow> conn" where
  "handleMeta rt chan_id buf c = c"

definition handleH264 :: "runtime \<Rightarrow> nat \<Rightarrow> buffer \<Rightarrow> conn \<Rightarrow> conn" where
  "handleH264 rt chan_id frame c =
     (let key = str_or (conn_dsno c) ''unknown'' @ ''-ch'' @ num_str rt (int chan_id);
          c1 = (if map_of (files c) chan_id = None
                then c\<lparr>streams := streams c @ [\<lparr> filePath = key @ ''.h264'', appended = [], ended = 0 \<rparr>],
                       files := files c @ [(chan_id, length (streams c))],
                       wsRoomKey := Some (str_or (wsRoomKey c)
                                     (''n9m:'' @ str_or (conn_dsno c) ''unknown'' @ '':ch''
                                        @ num_str rt (int chan_id)))\<rparr>
                else c);
          c2 = (case map_of (files c1) chan_id of
                  None \<Rightarrow> c1
                | Some i \<Rightarrow>
                    if i < length (streams c1) \<and> ended (streams c1 ! i) = 0
                    then c1\<lparr>streams := (streams c1)[i := (streams c1 ! i)\<lparr>appended := appended (streams c1 ! i) @ [frame]\<rparr>]\<rparr>
                    else c1)
      in if str_or (wsRoomKey c2) [] = [] then c2
         else c2\<lparr>broadcasts := broadcasts c2 @ [(str_or (wsRoomKey c2) [], frame)]\<rparr>)"

definition handlePacket :: "runtime \<Rightarrow> nat \<Rightarrow> nat \<Rightarrow> nat \<Rightarrow> buffer \<Rightarrow> conn \<Rightarrow> error + conn" where
  "handlePacket rt now ptype chan_id bytes c =
     (if ptype = 0 then handleSignal rt now bytes c
      else if ptype = 1 then Inr (handleMeta rt chan_id bytes c)
      else if ptype = 2 then Inr (handleH264 rt chan_id bytes c)
      else if ptype = 12 then Inr c
      else Inr c)"

fun end_all :: "(nat \<times> nat) list \<Rightarrow> sink list \<Rightarrow> sink list" where
  "end_all [] ss = ss"
| "end_all ((chan_id, i) # fs) ss =
     end_all fs (if i < length ss then ss[i := (ss ! i)\<lparr>ended := ended (ss ! i) + 1\<rparr>] else ss)"

definition clearInterval :: "timer \<Rightarrow> timer" where
  "clearInterval t = (case t of Unset \<Rightarrow> Unset | Running \<Rightarrow> Cleared | Cleared \<Rightarrow> Cleared)"

definition cleanup :: "conn \<Rightarrow> conn" where
  "cleanup c =
     c\<lparr>keepAliveTimer := clearInterval (keepAliveTimer c),
       idleTimer := clearInterval (idleTimer c),
       streams := end_all (files c) (streams c),
       files := [],
       destroyed := True\<rparr>"

definition keepalive_msg :: json where
  "keepalive_msg =
     JObj [(''module'', JStr ''certificate''),
           (''operation'', JObj [(''name'', JStr ''KeepAlive''), (''Type'', JStr ''Request-response'')])]"

text \<open>
  The two interval callbacks of \<open>startTimers\<close>. \<open>write_ok\<close> tells whether
  \<open>socket.write\<close> returns; when it raises, the callback catches the exception and
  does nothing.
\<close>

definition keepAlive_tick :: "runtime \<Rightarrow> bool \<Rightarrow> conn \<Rightarrow> conn" where
  "keepAlive_tick rt write_ok c =
     (if write_ok then c\<lparr>sent := sent c @ [packSignal rt keepalive_msg]\<rparr> else c)"

definition idle_tick :: "nat \<Rightarrow> conn \<Rightarrow> conn" where
  "idle_tick now c =
     (if int now - int (lastActivity c) > int heartbeat_timeoutMs then cleanup c else c)"

definition on_data :: "runtime \<Rightarrow> nat \<Rightarrow> buffer \<Rightarrow> conn \<Rightarrow> error + conn" where
  "on_data rt now chunk c =
     (case recv_loop (handlePacket rt now) (c\<lparr>lastActivity := now\<rparr>) (recvBuf c @ chunk) of
        Inl e \<Rightarrow> Inl e
      | Inr (c1, remainder) \<Rightarrow> Inr (c1\<lparr>recvBuf := remainder\<rparr>))"

definition new_conn :: "nat \<Rightarrow> conn" where
  "new_conn now =
     \<lparr> recvBuf = [], lastActivity = now, conn_dsno = None, streamname = None, files = [],
       wsRoomKey = None, keepAliveTimer = Running, idleTimer = Running, streams = [],
       sent = [], destroyed = False, broadcasts = [] \<rparr>"

text \<open>
  What can happen to a connection. Node delivers no \<open>data\<close> once the socket is
  destroyed and runs no callback of an interval that was cleared; an exception that
  leaves the \<open>data\<close> handler ends the process (\<open>Inl\<close>).
\<close>

datatype event =
    Data nat buffer
  | KeepAliveTimer bool
  | IdleTimer nat
  | SocketClose
  | SocketError

definition step :: "runtime \<Rightarrow> event \<Rightarrow> conn \<Rightarrow> error + conn" where
  "step rt ev c =
     (case ev of
        Data now chunk \<Rightarrow> if destroyed c then Inr c else on_data rt now chunk c
      | KeepAliveTimer write_ok \<Rightarrow>
          Inr (if keepAliveTimer c = Running then keepAlive_tick rt write_ok c else c)
      | IdleTimer now \<Rightarrow> Inr (if idleTimer c = Running then idle_tick now c else c)
      | SocketClose \<Rightarrow> Inr (cleanup c)
      | SocketError \<Rightarrow> Inr (cleanup c))"

fun run :: "runtime \<Rightarrow> event list \<Rightarrow> conn \<Rightarrow> error + conn" where
  "run rt [] c = Inr c"
| "run rt (ev # evs) c = (case step rt ev c of Inl e \<Rightarrow> Inl e | Inr c1 \<Rightarrow> run rt evs c1)"



text \<open>
  The streams a connection owns are those its \<open>files\<close> map names. \<open>sinks_ok\<close>: no
  stream is named twice, every name is a stream, an owned stream has not been ended
  and a stream that is no longer owned has been ended once.
\<close>

definition owned :: "conn \<Rightarrow> nat set" where
  "owned c = snd ` set (files c)"

definition sinks_ok :: "conn \<Rightarrow> bool" where
  "sinks_ok c \<longleftrightarrow>
     distinct (map snd (files c))
   \<and> owned c \<subseteq> {..< length (streams c)}
   \<and> (\<forall>i < length (streams c). ended (streams c ! i) = (if i \<in> owned c then 0 else 1))"

definition same_sinks :: "conn \<Rightarrow> conn \<Rightarrow> bool" where
  "same_sinks c c' \<longleftrightarrow>
     files c' = files c \<and> streams c' = streams c \<and> keepAliveTimer c' = keepAliveTimer c
     \<and> idleTimer c' = idleTimer c \<and> destroyed c' = destroyed c"

text \<open>A media frame for channel 5, and the connection that has received it at time 7.\<close>

definition media5 :: buffer where
  "media5 = [128, 2, 0, 5, 0, 0, 0, 3, 1, 2, 3]"

definition recording5 :: conn where
  "recording5 =
     \<lparr> recvBuf = [], lastActivity = 7, conn_dsno = None, streamname = None, files = [(5, 0)],
       wsRoomKey = Some ''n9m:unknown:ch5'', keepAliveTimer = Running, idleTimer = Running,
       streams = [\<lparr> filePath = ''unknown-ch5.h264'', appended = [[1, 2, 3]], ended = 0 \<rparr>],
       sent = [], destroyed = False, broadcasts = [(''n9m:unknown:ch5'', [1, 2, 3])] \<rparr>"

section \<open>The claims about the frame decoders\<close>

definition oversized_header :: buffer where
  "oversized_header = [0, 2, 0, 1, 1, 0, 0, 1, 0, 0, 0, 0]"

definition oversized_n9m :: buffer where
  "oversized_n9m = [128, 2, 0, 1, 1, 0, 0, 1]"

text \<open>
  \<open>buffer.constants.MAX_STRING_LENGTH\<close> of Node on a 64-bit platform,
  \<open>2^29 - 24\<close>: \<open>toString\<close> raises for a longer text. \<open>parsePacket\<close> above
  takes the conversion as total, so what is said below of a complete frame of type 0
  or 1 is said up to this length.
\<close>

definition MAX_STRING_LENGTH :: nat where
  "MAX_STRING_LENGTH = 536870888"

text \<open>A payload of 16 MiB and one byte.\<close>

definition big_payload :: buffer where
  "big_payload = replicate 16777217 0"

lemma parsePacket_frame:
  assumes "12 \<le> length b" "12 + readUInt32BE b 4 \<le> length b"
  shows "parsePacket rt b = Some
           \<lparr> version = drop_bit 6 (readUInt8 b 0) AND 3,
             padding = drop_bit 5 (readUInt8 b 0) AND 1,
             marker = drop_bit 4 (readUInt8 b 0) AND 1,
             csrcCount = readUInt8 b 0 AND 15,
             payloadType = readUInt8 b 1,
             ssrc = readUInt16BE b 2,
             payloadLen = readUInt32BE b 4,
             reserve = readUInt32BE b 8,
             csrcList = [],
             payload = frame_payload rt (readUInt8 b 1) (take (readUInt32BE b 4) (drop 12 b)),
             totalLength = 12 + readUInt32BE b 4 \<rparr>"
  using assms by (simp add: parsePacket_def Let_def subarray_def frame_payload_def)

lemma data_loop_frame:
  assumes "parsePacket rt b = Some p"
  shows "data_loop rt h s b =
           (case h p s of
              Inl e \<Rightarrow> Inl e
            | Inr s' \<Rightarrow> data_loop rt h s' (drop (12 + readUInt32BE b 4) b))"
  using assms parsePacket_Some(1-3)[OF assms] by (subst data_loop.simps) (auto split: sum.splits)

lemma parseN9M_frame:
  assumes "8 \<le> length b" "8 + (readUInt8 b 0 AND 15) * 4 + readUInt32BE b 4 \<le> length b"
  shows "parseN9M b = Some
           \<lparr> pt = readUInt8 b 1, chan = readUInt16BE b 2,
             body = take (readUInt32BE b 4) (drop (8 + (readUInt8 b 0 AND 15) * 4) b),
             rest = drop (8 + (readUInt8 b 0 AND 15) * 4 + readUInt32BE b 4) b \<rparr>"
  using assms by (simp add: parseN9M_def Let_def subarray_def)

lemma recv_loop_frame:
  assumes "parseN9M b = Some p"
  shows "recv_loop h s b =
           (case h (pt p) (chan p) (body p) s of
              Inl e \<Rightarrow> Inl e
            | Inr s' \<Rightarrow> recv_loop h s' (drop (8 + (readUInt8 b 0 AND 15) * 4 + readUInt32BE b 4) b))"
  using assms parseN9M_Some(2)[OF assms] by (subst recv_loop.simps) (auto split: sum.splits)

lemma onData_waiting:
  assumes "parsePacket rt (buffer st @ chunk) = None"
  shows "onData rt chunk st = Inr (st\<lparr>buffer := buffer st @ chunk\<rparr>)"
  using assms by (simp add: onData_def data_loop_waiting waiting_def)

lemma on_data_waiting:
  assumes "parseN9M (recvBuf c @ chunk) = None"
  shows "on_data rt now chunk c = Inr (c\<lparr>lastActivity := now, recvBuf := recvBuf c @ chunk\<rparr>)"
  using assms by (simp add: on_data_def recv_loop_waiting)


text \<open>
  C1. The claim: a frame is returned only when the buffer holds the header and the
  declared payload, and a returned payload is never shorter than declared.
  \<open>parsePacket\<close> and the \<open>parseN9M\<close> of the transmit-mode server keep to it
  (\<open>parsePacket_complete\<close>, \<open>parseN9M_complete\<close>). The \<open>parseN9M\<close> of the control
  server has the length test commented out: on thirteen bytes whose header declares
  a payload of 100 it returns a frame with a payload of one byte.
\<close>

theorem C1_parseN9M_ctrl_truncated:
  "parseN9M_ctrl [0, 0, 0, 0, 0, 1, 0, 0, 0, 100, 0, 0, 170] =
     Some \<lparr> header = \<lparr> h_version = 0, h_payloadType = 0, h_ssrc = 1,
                        h_payloadLen = 100, h_headerLen = 12 \<rparr>,
            f_payload = [170], f_rest = [] \<rparr>"
  by (simp add: parseN9M_ctrl_def readUInt8_def readUInt32BE_def subarray_def Let_def)

text \<open>
  C2, as the claim states it, fails: a header that declares 16777217 bytes of payload,
  one more than 16 MiB, is not rejected. Both parsers answer null, "wait for more
  data", and both \<open>data\<close> handlers keep the bytes and go on collecting.
\<close>

theorem C2_oversized_not_rejected:
  "16777216 < readUInt32BE oversized_header 4
   \<and> parsePacket sample_rt oversized_header = None
   \<and> onData sample_rt oversized_header server0 = Inr (server0\<lparr>buffer := oversized_header\<rparr>)
   \<and> 16777216 < readUInt32BE oversized_n9m 4
   \<and> parseN9M oversized_n9m = None
   \<and> on_data sample_rt 0 oversized_n9m (new_conn 0) = Inr ((new_conn 0)\<lparr>recvBuf := oversized_n9m\<rparr>)"
proof -
  have a: "readUInt32BE oversized_header 4 = 16777217"
    by (simp add: oversized_header_def readUInt32BE_def readUInt8_def)
  have b: "parsePacket sample_rt oversized_header = None"
    by (simp add: parsePacket_None_iff a) (simp add: oversized_header_def)
  have c: "readUInt32BE oversized_n9m 4 = 16777217"
    by (simp add: oversized_n9m_def readUInt32BE_def readUInt8_def)
  have d: "parseN9M oversized_n9m = None"
    by (simp add: parseN9M_def Let_def c) (simp add: oversized_n9m_def)
  have e: "onData sample_rt oversized_header server0 = Inr (server0\<lparr>buffer := oversized_header\<rparr>)"
    using onData_waiting[of sample_rt server0 oversized_header] b by (simp add: server0_def)
  have f: "on_data sample_rt 0 oversized_n9m (new_conn 0) = Inr ((new_conn 0)\<lparr>recvBuf := oversized_n9m\<rparr>)"
    using on_data_waiting[of "new_conn 0" oversized_n9m sample_rt 0] d by (simp add: new_conn_def)
  show ?thesis using a b c d e f by simp
qed

text \<open>
  C2, amended: the decoders know no maximum and reject no length. Whatever length above
  16 MiB a header declares, the parser answers null while fewer bytes than declared
  follow the header, and the \<open>data\<close> handler then keeps every byte received. Once
  the declared bytes are there the parser returns the frame, and the loop hands it to
  the packet handler like any other and goes on behind it. The payload of the frame is
  the declared bytes themselves, of the declared size, in the transmit-mode server and
  for every payload type of video\_server.js but 0 and 1; for the types 0 and 1 it is
  what \<open>JSON.parse\<close> makes of the trimmed text of those bytes, or that trimmed text.
  Of a complete frame of type 0 or 1 this is stated for lengths up to
  \<open>MAX_STRING_LENGTH\<close>.
\<close>

theorem C2_no_maximum_length:
  fixes st :: server and chunk :: buffer and c :: conn and chunk' :: buffer
  defines "b \<equiv> buffer st @ chunk"
    and "b' \<equiv> recvBuf c @ chunk'"
  defines "len \<equiv> readUInt32BE b 4"
    and "len' \<equiv> readUInt32BE b' 4"
    and "hl \<equiv> 8 + (readUInt8 b' 0 AND 15) * 4"
  shows
  "(12 \<le> length b \<and> 16777216 < len \<longrightarrow>
      (if length b < 12 + len
       then parsePacket rt b = None \<and> onData rt chunk st = Inr (st\<lparr>buffer := b\<rparr>)
       else ((readUInt8 b 1 = 0 \<or> readUInt8 b 1 = 1 \<longrightarrow> len \<le> MAX_STRING_LENGTH) \<longrightarrow>
             (\<exists>p. parsePacket rt b = Some p
                \<and> payloadType p = readUInt8 b 1 \<and> ssrc p = readUInt16BE b 2
                \<and> payloadLen p = len \<and> totalLength p = 12 + len
                \<and> length (take len (drop 12 b)) = len
                \<and> payload p =
                      (if readUInt8 b 1 = 0 \<or> readUInt8 b 1 = 1
                       then (case json_parse rt (str_trim rt (utf8_decode rt (take len (drop 12 b)))) of
                               Some v \<Rightarrow> Value v
                             | None \<Rightarrow> Value (JStr (str_trim rt (utf8_decode rt (take len (drop 12 b))))))
                       else Binary (take len (drop 12 b)))
                \<and> data_loop rt h s b =
                      (case h p s of
                         Inl e \<Rightarrow> Inl e
                       | Inr s' \<Rightarrow> data_loop rt h s' (drop (12 + len) b))))))
   \<and> (8 \<le> length b' \<and> 16777216 < len' \<longrightarrow>
      (if length b' < hl + len'
       then parseN9M b' = None
            \<and> on_data rt' now chunk' c = Inr (c\<lparr>lastActivity := now, recvBuf := b'\<rparr>)
       else parseN9M b' = Some \<lparr> pt = readUInt8 b' 1, chan = readUInt16BE b' 2,
                                 body = take len' (drop hl b'), rest = drop (hl + len') b' \<rparr>
            \<and> length (take len' (drop hl b')) = len'
            \<and> recv_loop h' s' b' =
                 (case h' (readUInt8 b' 1) (readUInt16BE b' 2) (take len' (drop hl b')) s' of
                    Inl e \<Rightarrow> Inl e
                  | Inr s'' \<Rightarrow> recv_loop h' s'' (drop (hl + len') b'))))"
proof (intro conjI impI)
  assume a: "12 \<le> length b \<and> 16777216 < len"
  show "if length b < 12 + len
       then parsePacket rt b = None \<and> onData rt chunk st = Inr (st\<lparr>buffer := b\<rparr>)
       else ((readUInt8 b 1 = 0 \<or> readUInt8 b 1 = 1 \<longrightarrow> len \<le> MAX_STRING_LENGTH) \<longrightarrow>
             (\<exists>p. parsePacket rt b = Some p
                \<and> payloadType p = readUInt8 b 1 \<and> ssrc p = readUInt16BE b 2
                \<and> payloadLen p = len \<and> totalLength p = 12 + len
                \<and> length (take len (drop 12 b)) = len
                \<and> payload p =
                      (if readUInt8 b 1 = 0 \<or> readUInt8 b 1 = 1
                       then (case json_parse rt (str_trim rt (utf8_decode rt (take len (drop 12 b)))) of
                               Some v \<Rightarrow> Value v
                             | None \<Rightarrow> Value (JStr (str_trim rt (utf8_decode rt (take len (drop 12 b))))))
                       else Binary (take len (drop 12 b)))
                \<and> data_loop rt h s b =
                      (case h p s of
                         Inl e \<Rightarrow> Inl e
                       | Inr s' \<Rightarrow> data_loop rt h s' (drop (12 + len) b))))"
  proof (cases "length b < 12 + len")
    case True
    then have "parsePacket rt b = None" by (simp add: parsePacket_None_iff len_def)
    with True show ?thesis using onData_waiting[of rt st chunk] by (simp add: b_def)
  next
    case False
    then have fit: "12 + readUInt32BE b 4 \<le> length b" by (simp add: len_def)
    note p = parsePacket_frame[OF conjunct1[OF a] fit, of rt]
    show ?thesis
      unfolding len_def using False fit
      by (simp add: p data_loop_frame[OF p] len_def frame_payload_def del: One_nat_def)
  qed
next
  assume a: "8 \<le> length b' \<and> 16777216 < len'"
  show "if length b' < hl + len'
       then parseN9M b' = None
            \<and> on_data rt' now chunk' c = Inr (c\<lparr>lastActivity := now, recvBuf := b'\<rparr>)
       else parseN9M b' = Some \<lparr> pt = readUInt8 b' 1, chan = readUInt16BE b' 2,
                                 body = take len' (drop hl b'), rest = drop (hl + len') b' \<rparr>
            \<and> length (take len' (drop hl b')) = len'
            \<and> recv_loop h' s' b' =
                 (case h' (readUInt8 b' 1) (readUInt16BE b' 2) (take len' (drop hl b')) s' of
                    Inl e \<Rightarrow> Inl e
                  | Inr s'' \<Rightarrow> recv_loop h' s'' (drop (hl + len') b'))"
  proof (cases "length b' < hl + len'")
    case True
    then have "parseN9M b' = None" by (simp add: parseN9M_def Let_def hl_def len'_def)
    with True show ?thesis using on_data_waiting[of c chunk' rt' now] by (simp add: b'_def)
  next
    case False
    then have fit: "8 + (readUInt8 b' 0 AND 15) * 4 + readUInt32BE b' 4 \<le> length b'"
      by (simp add: hl_def len'_def)
    note p = parseN9M_frame[OF conjunct1[OF a] fit]
    show ?thesis
      unfolding hl_def len'_def using False fit
      by (simp add: p recv_loop_frame[OF p] hl_def len'_def del: One_nat_def)
  qed
qed

lemma oversized_reads:
  "readUInt8 (oversized_header @ ext) 1 = 2" "readUInt16BE (oversized_header @ ext) 2 = 1"
  "readUInt32BE (oversized_header @ ext) 4 = 16777217" "length oversized_header = 12"
  "readUInt8 (oversized_n9m @ ext) 0 = 128" "readUInt8 (oversized_n9m @ ext) 1 = 2"
  "readUInt16BE (oversized_n9m @ ext) 2 = 1"
  "readUInt32BE (oversized_n9m @ ext) 4 = 16777217" "length oversized_n9m = 8"
  by (simp_all add: oversized_header_def oversized_n9m_def readUInt8_def readUInt16BE_def
        readUInt32BE_def)

lemma length_big_payload: "length big_payload = 16777217"
  by (simp add: big_payload_def)

theorem C2_no_maximum_length_witness:
  "(\<exists>p. parsePacket sample_rt (oversized_header @ big_payload) = Some p
        \<and> payloadType p = 2 \<and> ssrc p = 1 \<and> payloadLen p = 16777217 \<and> totalLength p = 16777229
        \<and> payload p = Binary big_payload \<and> length big_payload = 16777217
        \<and> data_loop sample_rt collect [] (oversized_header @ big_payload) = Inr ([p], []))
   \<and> parseN9M (oversized_n9m @ big_payload)
        = Some \<lparr> pt = 2, chan = 1, body = big_payload, rest = [] \<rparr>
   \<and> recv_loop collect3 [] (oversized_n9m @ big_payload) = Inr ([(2, 1, big_payload)], [])"
proof -
  have b0: "buffer server0 @ (oversized_header @ big_payload) = oversized_header @ big_payload"
    by (simp add: server0_def)
  have r0: "recvBuf (new_conn 0) @ (oversized_n9m @ big_payload) = oversized_n9m @ big_payload"
    by (simp add: new_conn_def)
  have stop: "data_loop sample_rt collect acc [] = Inr (acc, [])" for acc :: "packet list"
    by (simp add: data_loop_waiting waiting_def)
  have stop3: "recv_loop collect3 acc [] = Inr (acc, [])" for acc
    by (simp add: recv_loop_waiting parseN9M_def)
  note w = C2_no_maximum_length[of server0 "oversized_header @ big_payload" sample_rt collect "[]"
      "new_conn 0" "oversized_n9m @ big_payload" sample_rt 7 collect3 "[]", unfolded b0 r0]
  have n: "(128::nat) AND 15 = 0" by simp
  show ?thesis
    using w
    by (simp add: oversized_reads length_big_payload n collect_def collect3_def stop stop3
          del: One_nat_def)
qed

text \<open>
  C3. Feeding a byte sequence to the receive loop chunk by chunk, each chunk appended
  to the retained remainder and decoded until the parser answers null, yields the
  frames, and the remainder, that the whole sequence yields at once. This holds for
  the loop of video\_server.js and for the loop of the transmit-mode server, on every
  byte sequence and every split.
\<close>

theorem C3_chunk_invariance:
  "feed_chunks rt collect [] [] chunks = data_loop rt collect [] (concat chunks)
   \<and> recv_chunks collect3 [] [] chunks = recv_loop collect3 [] (concat chunks)"
proof
  have "waiting rt []" by (simp add: waiting_def)
  from feed_chunks_whole[OF this, of collect "[]" chunks]
  show "feed_chunks rt collect [] [] chunks = data_loop rt collect [] (concat chunks)" by simp
next
  have "parseN9M [] = None" by (simp add: parseN9M_def)
  from recv_chunks_whole[OF this, of collect3 "[]" chunks]
  show "recv_chunks collect3 [] [] chunks = recv_loop collect3 [] (concat chunks)" by simp
qed


section \<open>The claims about the signal dispatcher\<close>

text \<open>
  The connection that has received the CONNECT of session \<open>abc\<close> in a chunk of its
  own; a signal frame whose payload text is that CONNECT behind a vertical tab, and the
  packet the parser makes of it.
\<close>

definition established_abc :: server where
  "established_abc = connected_abc\<lparr>sessionId := JStr ''abc''\<rparr>"






lemma connect_accepted:
  assumes p: "payload p = Value msg"
    and m: "member_of msg ''MODULE'' = Some (JStr ''CERTIFICATE'')"
    and ope: "member_of msg ''OPERATION'' = Some (JStr ''CONNECT'')"
    and s: "member_of msg ''SESSION'' = Some (JStr key)" "key \<noteq> []"
    and par: "member_of msg ''PARAMETER'' = Some (JObj ps)"
    and name: "ToString (num_str rt) (or_default (map_of ps ''CARNUM'') (JStr [])) = Inr name"
    and fs: "writeFileSync_ok rt name"
  shows "handleMessagePacket rt p sid st =
    (Inr (JStr key),
     st\<lparr>devices := (devices st)(key \<mapsto> device_of (JStr key) (JObj ps)),
        draws := draws st + 1,
        written := written st @ [buildPacket rt
           (certificate_reply msg (JStr key) (connect_response (hexUpper (randomBytes8 rt (draws st))) msg))
           (payloadType p) (ssrc p)],
        delayed := delayed st @ [buildPacket rt (request_alive_video msg) 0 0],
        logs := logs st @ [(name, p)]\<rparr>)"
proof -
  have msg_obj: "non_null (Some msg) = Inr msg"
    using m by (cases msg) (simp_all add: non_null_def)
  have sw: "switch_module rt msg (JStr key) st =
      (Inr (Some (certificate_reply msg (JStr key)
                   (connect_response (hexUpper (randomBytes8 rt (draws st))) msg))),
       st\<lparr>draws := draws st + 1,
          devices := (devices st)(key \<mapsto> device_of (JStr key) (JObj ps))\<rparr>)"
    by (simp add: switch_module_def m ope certificate_connect_def generateSO_def par non_null_def)
  show ?thesis
    using s(2)
    by (simp add: handleMessagePacket_def p msg_obj s(1) sw console_payload_def m
         carNumText_def getCarNum_def logPacket_def is_connect_def ope device_of_def name fs Let_def)
qed

lemma connect_rejected:
  assumes p: "payload p = Value msg"
    and m: "member_of msg ''MODULE'' = Some (JStr ''CERTIFICATE'')"
    and ope: "member_of msg ''OPERATION'' = Some (JStr ''CONNECT'')"
    and par: "member_of msg ''PARAMETER'' = None \<or> member_of msg ''PARAMETER'' = Some JNull"
  shows "handleMessagePacket rt p sid st = (Inl TypeError, st\<lparr>draws := draws st + 1\<rparr>)"
proof -
  have msg_obj: "non_null (Some msg) = Inr msg"
    using m by (cases msg) (simp_all add: non_null_def)
  have np: "non_null (member_of msg ''PARAMETER'') = Inl TypeError"
    using par by (auto simp: non_null_def)
  have sw: "switch_module rt msg sess st = (Inl TypeError, st\<lparr>draws := draws st + 1\<rparr>)" for sess
    using ToString_error(1)[of "num_str rt" sess]
    by (auto simp: switch_module_def m ope certificate_connect_def generateSO_def np split: sum.splits)
  show ?thesis
    by (simp add: handleMessagePacket_def p msg_obj sw Let_def)
qed




lemma sample_decode_encode: "utf8_decode sample_rt (utf8_encode sample_rt s) = s"
proof -
  have "char_of (unat (of_nat (of_char c :: nat) :: byte)) = c" for c
    by (simp add: unat_byte)
  then show ?thesis by (simp add: sample_rt_def comp_def)
qed



lemma trim_ascii_object: "trim_ascii (show_json (JObj kvs)) = show_json (JObj kvs)"
  by (simp add: trim_ascii_def is_space_def)

lemma sample_parse_documents:
  "sample_parse (show_json connect_abc) = Some connect_abc"
  "sample_parse (show_json keepalive_plain) = Some keepalive_plain"
  "sample_parse (show_json connect_no_parameter) = Some connect_no_parameter"
  "sample_parse (show_json connect_abc_slash) = Some connect_abc_slash"
  by (simp_all add: sample_parse_def sample_documents_def)
     (simp_all add: connect_abc_def keepalive_plain_def connect_no_parameter_def
        connect_abc_slash_def quoted_def)

lemma sample_signal_frame:
  assumes "sample_parse (show_json (JObj kvs)) = Some (JObj kvs)"
    and "length (show_json (JObj kvs)) < 4294967296"
  shows "data_loop sample_rt h s (buildPacket sample_rt (JObj kvs) 0 1 @ ext) =
           (case h (signal_packet (JObj kvs)) s of
              Inl e \<Rightarrow> Inl e
            | Inr s' \<Rightarrow> data_loop sample_rt h s' ext)"
proof -
  let ?bytes = "utf8_encode sample_rt (json_stringify sample_rt (JObj kvs))"
  have st: "json_stringify sample_rt (JObj kvs) = show_json (JObj kvs)"
    by (simp add: sample_rt_def)
  have len: "length ?bytes = length (show_json (JObj kvs))"
    by (simp add: sample_rt_def)
  have dec: "utf8_decode sample_rt ?bytes = show_json (JObj kvs)"
    unfolding st[symmetric] by (rule sample_decode_encode)
  have tr: "str_trim sample_rt (show_json (JObj kvs)) = show_json (JObj kvs)"
    using trim_ascii_object[of kvs] by (simp add: sample_rt_def del: show_json.simps)
  have pa: "json_parse sample_rt (show_json (JObj kvs)) = Some (JObj kvs)"
    using assms(1) by (simp add: sample_rt_def del: show_json.simps)
  have fp: "frame_payload sample_rt 0 ?bytes = Value (JObj kvs)"
    by (simp add: frame_payload_def dec tr pa del: show_json.simps)
  have pk: "parsed sample_rt 0 1 ?bytes = signal_packet (JObj kvs)"
    by (simp add: parsed_def signal_packet_def fp len del: show_json.simps)
  have step: "data_loop sample_rt h s (device_frame 0 1 ?bytes @ ext) =
           (case h (parsed sample_rt 0 1 ?bytes) s of
              Inl e \<Rightarrow> Inl e
            | Inr s' \<Rightarrow> data_loop sample_rt h s' ext)"
    by (rule data_loop_device_frame) (simp_all add: len assms(2) del: show_json.simps)
  show ?thesis
    unfolding buildPacket_device_frame using step unfolding pk .
qed

lemma sample_lengths:
  "length (show_json connect_abc) < 4294967296"
  "length (show_json keepalive_plain) < 4294967296"
  "length (show_json connect_no_parameter) < 4294967296"
  "length (show_json connect_abc_slash) < 4294967296"
  by (simp_all add: connect_abc_def keepalive_plain_def connect_no_parameter_def
        connect_abc_slash_def quoted_def show_int_def show_nat.simps digit_char_def)

lemma connect_abc_handled:
  "handleMessagePacket sample_rt (signal_packet connect_abc) (JStr []) server0
     = (Inr (JStr ''abc''), connected_abc)"
proof -
  let ?ps = "[(''DSNO'', JStr ''D1''), (''CARNUM'', JStr ''CAR1''), (''CHANNEL'', JNum 4),
              (''DEVNAME'', JStr ''bus''), (''DEVCLASS'', JNum 4), (''DEVTYPE'', JNum 1),
              (''NET'', JNum 0), (''PRO'', JStr ''1.0.6'')]"
  have "handleMessagePacket sample_rt (signal_packet connect_abc) (JStr []) server0 =
    (Inr (JStr ''abc''),
     server0\<lparr>devices := (devices server0)(''abc'' \<mapsto> device_of (JStr ''abc'') (JObj ?ps)),
        draws := draws server0 + 1,
        written := written server0 @ [buildPacket sample_rt
           (certificate_reply connect_abc (JStr ''abc'')
              (connect_response (hexUpper (randomBytes8 sample_rt (draws server0))) connect_abc))
           (payloadType (signal_packet connect_abc)) (ssrc (signal_packet connect_abc))],
        delayed := delayed server0 @ [buildPacket sample_rt (request_alive_video connect_abc) 0 0],
        logs := logs server0 @ [(''CAR1'', signal_packet connect_abc)]\<rparr>)"
    by (rule connect_accepted[where msg = connect_abc and ps = ?ps])
       (simp_all add: signal_packet_def connect_abc_def sample_rt_def)
  then show ?thesis
    by (simp add: sample_token0 device_of_def signal_packet_def connected_abc_def connect_reply_def)
qed

lemma keepalive_handled:
  assumes "truthy sid \<longrightarrow> sid = JStr ''abc''"
    and "devices st = devices connected_abc"
  shows "handleMessagePacket sample_rt (signal_packet keepalive_plain) sid st
     = (if truthy sid
        then (Inr (JStr ''abc''),
              st\<lparr>written := written st @ [keepalive_reply (JStr ''abc'')],
                 logs := logs st @ [(''CAR1'', signal_packet keepalive_plain)]\<rparr>)
        else (Inr (JStr []), st\<lparr>written := written st @ [keepalive_reply (JStr [])]\<rparr>))"
proof -
  have m: "member_of keepalive_plain ''MODULE'' = Some (JStr ''CERTIFICATE'')"
    "member_of keepalive_plain ''OPERATION'' = Some (JStr ''KEEPALIVE'')"
    "member_of keepalive_plain ''SESSION'' = None"
    by (simp_all add: keepalive_plain_def)
  have nn: "non_null (Some keepalive_plain) = Inr keepalive_plain"
    by (simp add: keepalive_plain_def non_null_def)
  have sw: "switch_module sample_rt keepalive_plain sess st
              = (Inr (Some (certificate_reply keepalive_plain sess (JObj []))), st)" for sess
    by (simp add: switch_module_def m)
  have dv: "devices st ''abc'' = devices connected_abc ''abc''" "devices st [] = None"
    using assms(2) by (simp_all add: connected_abc_def)
  have ok: "writeFileSync_ok sample_rt ''CAR1''"
    by (simp add: sample_rt_def)
  have pk: "payload (signal_packet keepalive_plain) = Value keepalive_plain"
    "payloadType (signal_packet keepalive_plain) = 0" "ssrc (signal_packet keepalive_plain) = 1"
    by (simp_all add: signal_packet_def)
  show ?thesis
  proof (cases "truthy sid")
    case True
    with assms(1) have sid: "sid = JStr ''abc''" by simp
    show ?thesis
      by (simp add: sid handleMessagePacket_def pk nn m sw console_payload_def carNumText_def
            getCarNum_def dv connected_abc_def logPacket_def ok is_connect_def keepalive_reply_def Let_def)
  next
    case False
    then show ?thesis
      by (simp add: handleMessagePacket_def pk nn m sw console_payload_def carNumText_def
            getCarNum_def dv logPacket_def is_connect_def keepalive_reply_def Let_def)
  qed
qed











text \<open>
  A CONNECT without a PARAMETER member is another matter, and no part of the amended
  claim. The handler draws the token and then reads \<open>msg.PARAMETER.DSNO\<close>, where
  the line before it reads \<open>msg.PARAMETER?.PRO\<close>: a TypeError, raised before
  anything is stored or written. It rejects the promise of the handler, nothing handles
  the rejection, and the process ends, on a new connection and on one that has
  registered a session alike.
\<close>

lemma connect_without_parameter:
  "handleMessagePacket sample_rt (signal_packet connect_no_parameter) (JStr []) server0
     = (Inl TypeError, server0\<lparr>draws := 1\<rparr>)
   \<and> onData sample_rt (buildPacket sample_rt connect_no_parameter 0 1) server0 = Inl TypeError
   \<and> onData sample_rt (buildPacket sample_rt connect_no_parameter 0 1) established_abc = Inl TypeError"
proof -
  have m: "payload (signal_packet connect_no_parameter) = Value connect_no_parameter"
    "member_of connect_no_parameter ''MODULE'' = Some (JStr ''CERTIFICATE'')"
    "member_of connect_no_parameter ''OPERATION'' = Some (JStr ''CONNECT'')"
    "member_of connect_no_parameter ''PARAMETER'' = None
       \<or> member_of connect_no_parameter ''PARAMETER'' = Some JNull"
    by (simp_all add: signal_packet_def connect_no_parameter_def)
  note rej = connect_rejected[OF m, of sample_rt]
  have c: "sample_parse (show_json connect_no_parameter) = Some connect_no_parameter"
    by (rule sample_parse_documents)
  note f = sample_signal_frame[OF c[unfolded connect_no_parameter_def]
      sample_lengths(3)[unfolded connect_no_parameter_def], folded connect_no_parameter_def]
  have stop: "data_loop sample_rt h s [] = Inr (s, [])" for h and s :: "server \<times> settled list"
    by (simp add: data_loop_waiting waiting_def)
  have pk: "payloadType (signal_packet j) = 0" for j
    by (simp add: signal_packet_def)
  have e: "buffer established_abc = []"
    by (simp add: established_abc_def connected_abc_def)
  have a: "onData sample_rt (buildPacket sample_rt connect_no_parameter 0 1) st = Inl TypeError"
    if "buffer st = []" for st
    using f[of "dispatch sample_rt (sessionId st)" "(st, [])" "[]"] that
    by (simp add: onData_def dispatch_def pk rej stop)
  show ?thesis
    using rej[of "JStr []" server0] a[of server0] a[OF e] by simp
qed







text \<open>
  C9. The frames of a connection are handled one after the other, in the order of
  arrival, and each handler sees the registry as the one before left it. The current
  session id does not follow: the handler's result is assigned in a \<open>then\<close> callback,
  which runs after the loop has handled every frame of the chunk. A CONNECT for session
  \<open>abc\<close> and a KEEPALIVE without a session, received in one chunk, are answered with
  the session \<open>abc\<close> and the empty session, and the empty session is what the
  connection keeps; received in two chunks they are both answered with \<open>abc\<close>.
\<close>

theorem C9_session_id_lags_within_chunk:
  "map_sum id (\<lambda>st. (written st, sessionId st))
      (onData sample_rt (connect_frame @ keepalive_frame) server0)
     = Inr ([connect_reply, keepalive_reply (JStr [])], JStr [])
   \<and> map_sum id (\<lambda>st. (written st, sessionId st))
      (case onData sample_rt connect_frame server0 of
         Inl e \<Rightarrow> Inl e
       | Inr st \<Rightarrow> onData sample_rt keepalive_frame st)
     = Inr ([connect_reply, keepalive_reply (JStr ''abc'')], JStr ''abc'')
   \<and> length (keepalive_reply (JStr [])) \<noteq> length (keepalive_reply (JStr ''abc''))"
proof -
  have c: "sample_parse (show_json connect_abc) = Some connect_abc"
    "sample_parse (show_json keepalive_plain) = Some keepalive_plain"
    by (rule sample_parse_documents)+
  note f1 = sample_signal_frame[OF c(1)[unfolded connect_abc_def] sample_lengths(1)[unfolded connect_abc_def],
      folded connect_abc_def connect_frame_def]
  note f2 = sample_signal_frame[OF c(2)[unfolded keepalive_plain_def] sample_lengths(2)[unfolded keepalive_plain_def],
      folded keepalive_plain_def keepalive_frame_def]
  have stop: "data_loop sample_rt h s [] = Inr (s, [])" for h and s :: "server \<times> settled list"
    by (simp add: data_loop_waiting waiting_def)
  have d1: "dispatch sample_rt (JStr []) (signal_packet connect_abc) (server0, [])
              = Inr (connected_abc, [Session (JStr ''abc'')])"
    by (simp add: dispatch_def signal_packet_def[of connect_abc, THEN arg_cong[where f = payloadType]]
          connect_abc_handled)
  have pk: "payloadType (signal_packet keepalive_plain) = 0"
    by (simp add: signal_packet_def)
  have d2: "dispatch sample_rt sid (signal_packet keepalive_plain) (st, jobs)
              = (if truthy sid
                 then Inr (st\<lparr>written := written st @ [keepalive_reply (JStr ''abc'')],
                            logs := logs st @ [(''CAR1'', signal_packet keepalive_plain)]\<rparr>,
                           jobs @ [Session (JStr ''abc'')])
                 else Inr (st\<lparr>written := written st @ [keepalive_reply (JStr [])]\<rparr>,
                           jobs @ [Session (JStr [])]))"
    if "truthy sid \<longrightarrow> sid = JStr ''abc''" "devices st = devices connected_abc" for sid st jobs
    using keepalive_handled[OF that] by (simp add: dispatch_def pk)
  have wr: "written connected_abc = [connect_reply]"
    by (simp add: connected_abc_def)
  have whole: "data_loop sample_rt (dispatch sample_rt (JStr [])) (server0, [])
                 (connect_frame @ keepalive_frame)
             = Inr ((connected_abc\<lparr>written := [connect_reply, keepalive_reply (JStr [])]\<rparr>,
                     [Session (JStr ''abc''), Session (JStr [])]), [])"
    using f2[of "dispatch sample_rt (JStr [])" "(connected_abc, [Session (JStr ''abc'')])" "[]"]
    by (simp add: f1 d1 d2 stop wr)
  have A: "map_sum id (\<lambda>st. (written st, sessionId st))
             (onData sample_rt (connect_frame @ keepalive_frame) server0)
           = Inr ([connect_reply, keepalive_reply (JStr [])], JStr [])"
    by (simp add: onData_def whole)
  have first: "onData sample_rt connect_frame server0
                 = Inr (connected_abc\<lparr>buffer := [], sessionId := JStr ''abc''\<rparr>)"
    using f1[of "dispatch sample_rt (JStr [])" "(server0, [])" "[]"]
    by (simp add: onData_def d1 stop)
  have second: "map_sum id (\<lambda>st. (written st, sessionId st))
                  (onData sample_rt keepalive_frame (connected_abc\<lparr>buffer := [], sessionId := JStr ''abc''\<rparr>))
                = Inr ([connect_reply, keepalive_reply (JStr ''abc'')], JStr ''abc'')"
    using f2[of "dispatch sample_rt (JStr ''abc'')"
               "(connected_abc\<lparr>buffer := [], sessionId := JStr ''abc''\<rparr>, [])" "[]"]
    by (simp add: onData_def d2 stop wr)
  have differ: "length (keepalive_reply (JStr [])) \<noteq> length (keepalive_reply (JStr ''abc''))"
    by (simp add: keepalive_reply_def buildPacket_def certificate_reply_def keepalive_plain_def
          sample_rt_def quoted_def Let_def)
  show ?thesis
    using A second differ by (simp add: first)
qed


section \<open>The claims about the connection of the transmit-mode server\<close>

lemma end_all_length [simp]: "length (end_all fs ss) = length ss"
  by (induction fs ss rule: end_all.induct) auto

lemma end_all_nth:
  assumes "distinct (map snd fs)" "i < length ss"
  shows "end_all fs ss ! i =
           (if i \<in> snd ` set fs then (ss ! i)\<lparr>ended := ended (ss ! i) + 1\<rparr> else ss ! i)"
  using assms
proof (induction fs ss rule: end_all.induct)
  case (1 ss)
  then show ?case by simp
next
  case (2 chan_id j fs ss)
  then show ?case by (auto simp: nth_list_update image_iff)
qed

lemma cleanup_idem: "cleanup (cleanup c) = cleanup c"
  by (simp add: cleanup_def clearInterval_def split: timer.splits)

lemma sinks_ok_new: "sinks_ok (new_conn now)"
  by (simp add: sinks_ok_def new_conn_def owned_def)

lemma sinks_ok_cleanup:
  assumes "sinks_ok c"
  shows "sinks_ok (cleanup c)"
    and "\<forall>i < length (streams c). ended (streams (cleanup c) ! i) = 1"
    and "length (streams (cleanup c)) = length (streams c)"
proof -
  from assms have d: "distinct (map snd (files c))"
    and e: "\<forall>i < length (streams c). ended (streams c ! i) = (if i \<in> owned c then 0 else 1)"
    by (simp_all add: sinks_ok_def)
  show all: "\<forall>i < length (streams c). ended (streams (cleanup c) ! i) = 1"
    using e by (auto simp: cleanup_def end_all_nth[OF d] owned_def)
  show "length (streams (cleanup c)) = length (streams c)"
    by (simp add: cleanup_def)
  show "sinks_ok (cleanup c)"
    using all by (simp add: sinks_ok_def owned_def cleanup_def)
qed


lemma handleH264_sinks_ok:
  assumes "sinks_ok c"
  shows "sinks_ok (handleH264 rt chan_id frame c)"
proof -
  from assms have d: "distinct (map snd (files c))"
    and sub: "owned c \<subseteq> {..< length (streams c)}"
    and e: "\<forall>i < length (streams c). ended (streams c ! i) = (if i \<in> owned c then 0 else 1)"
    by (simp_all add: sinks_ok_def)
  define c1 where "c1 = (if map_of (files c) chan_id = None
                then c\<lparr>streams := streams c @ [\<lparr> filePath = (str_or (conn_dsno c) ''unknown'' @ ''-ch'' @ num_str rt (int chan_id)) @ ''.h264'', appended = [], ended = 0 \<rparr>],
                       files := files c @ [(chan_id, length (streams c))],
                       wsRoomKey := Some (str_or (wsRoomKey c)
                                     (''n9m:'' @ str_or (conn_dsno c) ''unknown'' @ '':ch''
                                        @ num_str rt (int chan_id)))\<rparr>
                else c)"
  have ok1: "sinks_ok c1"
  proof (cases "map_of (files c) chan_id = None")
    case False
    then show ?thesis using assms by (auto simp: c1_def)
  next
    case True
    have fresh: "length (streams c) \<notin> owned c" using sub by auto
    have "distinct (map snd (files c1))"
      using True d fresh by (simp add: c1_def owned_def)
    moreover have "owned c1 = insert (length (streams c)) (owned c)"
      using True by (simp add: c1_def owned_def)
    moreover have "length (streams c1) = Suc (length (streams c))"
      using True by (simp add: c1_def)
    moreover have "\<forall>i < length (streams c1). ended (streams c1 ! i) = (if i \<in> insert (length (streams c)) (owned c) then 0 else 1)"
      using True e by (auto simp: c1_def nth_append less_Suc_eq)
    ultimately show ?thesis using sub by (auto simp: sinks_ok_def)
  qed
  define c2 where "c2 = (case map_of (files c1) chan_id of
                  None \<Rightarrow> c1
                | Some i \<Rightarrow>
                    if i < length (streams c1) \<and> ended (streams c1 ! i) = 0
                    then c1\<lparr>streams := (streams c1)[i := (streams c1 ! i)\<lparr>appended := appended (streams c1 ! i) @ [frame]\<rparr>]\<rparr>
                    else c1)"
  have ok2: "sinks_ok c2"
    using ok1 by (auto simp: c2_def sinks_ok_def owned_def nth_list_update split: option.splits)
  have "handleH264 rt chan_id frame c =
          (if str_or (wsRoomKey c2) [] = [] then c2
           else c2\<lparr>broadcasts := broadcasts c2 @ [(str_or (wsRoomKey c2) [], frame)]\<rparr>)"
    by (simp only: handleH264_def c1_def c2_def Let_def)
  then show ?thesis using ok2 by (simp add: sinks_ok_def owned_def)
qed

lemma same_sinks_refl [simp]: "same_sinks c c"
  by (simp add: same_sinks_def)

lemma same_sinks_sends [simp]:
  "same_sinks c (sendCreateStream rt now c1) = same_sinks c c1"
  "same_sinks c (sendControlStart rt chan_id c1) = same_sinks c c1"
  by (simp_all add: same_sinks_def sendCreateStream_def sendControlStart_def Let_def)

lemma same_sinks_updates [simp]:
  "same_sinks c (c1\<lparr>streamname := sn\<rparr>) = same_sinks c c1"
  "same_sinks c (c1\<lparr>conn_dsno := d, wsRoomKey := k\<rparr>) = same_sinks c c1"
  by (simp_all add: same_sinks_def)

lemma handleSignal_keeps:
  assumes "handleSignal rt now bytes c = Inr c'"
  shows "same_sinks c c'"
proof (cases "json_parse rt (utf8_decode rt bytes)")
  case None
  with assms show ?thesis by (simp add: handleSignal_def)
next
  case (Some msg)
  define op where "op = or_default (get_opt (get_opt (Some msg) ''operation'') ''name'') (JStr ''Unknown'')"
  define param where "param = or_default (get_opt (Some msg) ''parameter'') (JObj [])"
  define resp where "resp = or_default (get_opt (Some msg) ''response'') (JObj [])"
  define discoveredDsno where "discoveredDsno =
                 js_or (js_or (js_or (js_or (js_or (member_of param ''dsno'') (member_of resp ''dsno''))
                   (member_of param ''deviceid'')) (member_of resp ''deviceid''))
                   (member_of param ''imei'')) (member_of resp ''imei'')"
  define first where "first = (case discoveredDsno of
                      None \<Rightarrow> Inr c
                    | Some d \<Rightarrow>
                        if truthy d \<and> str_or (conn_dsno c) [] = []
                        then (case ToString (num_str rt) d of
                                Inl e \<Rightarrow> Inl e
                              | Inr text \<Rightarrow>
                                  Inr (c\<lparr>conn_dsno := Some text,
                                         wsRoomKey := Some (str_or (wsRoomKey c)
                                                       (''n9m:'' @ text @ '':ch1''))\<rparr>))
                        else Inr c)"
  have unfold: "handleSignal rt now bytes c =
      (case first of
                Inl e \<Rightarrow> Inl e
              | Inr c1 \<Rightarrow>
                  (case ToString (num_str rt) op of
                     Inl e \<Rightarrow> Inl e
                   | Inr opname \<Rightarrow>
                       if found_in ''connect'' opname \<or> found_in ''register'' opname
                       then
                         (let c2 = (if str_or (streamname c1) [] = []
                                    then c1\<lparr>streamname := Some (''live-''
                                           @ str_or (conn_dsno c1) (num_str rt (int now)))\<rparr>
                                    else c1)
                          in Inr (sendControlStart rt 1 (sendCreateStream rt now c2)))
                       else Inr c1))"
    by (simp only: handleSignal_def Some option.case Let_def op_def param_def resp_def
          discoveredDsno_def first_def)
  have f: "same_sinks c c1" if "first = Inr c1" for c1
    using that by (auto simp: first_def split: option.splits if_splits sum.splits)
  from assms show ?thesis
    unfolding unfold
    by (auto simp: Let_def dest!: f split: sum.splits if_splits)
qed


lemma handlePacket_sinks_ok:
  assumes "sinks_ok c" "handlePacket rt now ptype chan_id bytes c = Inr c'"
  shows "sinks_ok c'"
proof -
  consider "ptype = 0" | "ptype = 1" | "ptype = 2" | "ptype \<noteq> 0 \<and> ptype \<noteq> 1 \<and> ptype \<noteq> 2" by blast
  then show ?thesis
  proof cases
    case 1
    with assms(2) have "handleSignal rt now bytes c = Inr c'" by (simp add: handlePacket_def)
    from handleSignal_keeps[OF this] assms(1) show ?thesis
      by (simp add: sinks_ok_def owned_def same_sinks_def)
  next
    case 2
    with assms show ?thesis by (simp add: handlePacket_def handleMeta_def)
  next
    case 3
    with assms show ?thesis by (auto simp: handlePacket_def handleH264_sinks_ok)
  next
    case 4
    with assms show ?thesis by (auto simp: handlePacket_def split: if_splits)
  qed
qed


lemma recv_loop_preserves:
  assumes "\<forall>t ch b c c'. P c \<longrightarrow> h t ch b c = Inr c' \<longrightarrow> P c'"
    and "P c" and "recv_loop h c buf = Inr (c', r)"
  shows "P c'"
  using assms
proof (induction h c buf rule: recv_loop.induct)
  case (1 h s buf)
  show ?case
  proof (cases "parseN9M buf")
    case None
    with "1.prems" show ?thesis by (simp add: recv_loop.simps)
  next
    case (Some pkt)
    show ?thesis
    proof (cases "h (pt pkt) (chan pkt) (body pkt) s")
      case (Inl e)
      with Some "1.prems" show ?thesis by (simp add: recv_loop.simps)
    next
      case (Inr s1)
      with Some "1.prems"(3) have loop: "recv_loop h s1 (rest pkt) = Inr (c', r)"
        by (simp add: recv_loop.simps)
      have "P s1" using "1.prems"(1,2) Inr by blast
      from "1.IH"[OF Some Inr "1.prems"(1) this loop] show ?thesis .
    qed
  qed
qed

lemma sinks_ok_cong:
  "files c' = files c \<Longrightarrow> streams c' = streams c \<Longrightarrow> sinks_ok c' = sinks_ok c"
  by (simp add: sinks_ok_def owned_def)

lemma sinks_ok_updates [simp]:
  "sinks_ok (c\<lparr>sent := x\<rparr>) = sinks_ok c"
  "sinks_ok (c\<lparr>lastActivity := t\<rparr>) = sinks_ok c"
  "sinks_ok (c\<lparr>recvBuf := b\<rparr>) = sinks_ok c"
  by (simp_all add: sinks_ok_def owned_def)

lemma on_data_sinks_ok:
  assumes "sinks_ok c" "on_data rt now chunk c = Inr c'"
  shows "sinks_ok c'"
proof -
  from assms(2) obtain c1 r where
    loop: "recv_loop (handlePacket rt now) (c\<lparr>lastActivity := now\<rparr>) (recvBuf c @ chunk) = Inr (c1, r)"
    and c': "c' = c1\<lparr>recvBuf := r\<rparr>"
    by (auto simp: on_data_def split: sum.splits)
  have pres: "\<forall>t ch b c c'. sinks_ok c \<longrightarrow> handlePacket rt now t ch b c = Inr c' \<longrightarrow> sinks_ok c'"
    using handlePacket_sinks_ok by blast
  have "sinks_ok (c\<lparr>lastActivity := now\<rparr>)"
    using assms(1) by simp
  from recv_loop_preserves[OF pres this loop] show ?thesis by (simp add: c')
qed

lemma step_sinks_ok:
  assumes "sinks_ok c" "step rt ev c = Inr c'"
  shows "sinks_ok c'"
proof (cases ev)
  case (Data now chunk)
  with assms show ?thesis by (auto simp: step_def on_data_sinks_ok split: if_splits)
next
  case (KeepAliveTimer write_ok)
  with assms show ?thesis
    by (auto simp: step_def keepAlive_tick_def split: if_splits)
next
  case (IdleTimer now)
  with assms show ?thesis
    by (auto simp: step_def idle_tick_def sinks_ok_cleanup(1) split: if_splits)
next
  case SocketClose
  with assms show ?thesis by (auto simp: step_def sinks_ok_cleanup(1))
next
  case SocketError
  with assms show ?thesis by (auto simp: step_def sinks_ok_cleanup(1))
qed

lemma run_sinks_ok:
  "sinks_ok c \<Longrightarrow> run rt evs c = Inr c' \<Longrightarrow> sinks_ok c'"
proof (induction evs arbitrary: c)
  case Nil
  then show ?case by simp
next
  case (Cons ev evs)
  then show ?case by (auto split: sum.splits dest: step_sinks_ok)
qed

lemma cleanup_fields:
  "keepAliveTimer (cleanup c) \<noteq> Running" "idleTimer (cleanup c) \<noteq> Running"
  "files (cleanup c) = []" "destroyed (cleanup c)"
  by (simp_all add: cleanup_def clearInterval_def split: timer.splits)

lemma step_after_cleanup: "step rt ev (cleanup c) = Inr (cleanup c)"
  by (cases ev) (simp_all add: step_def cleanup_fields cleanup_idem)

lemma run_after_cleanup: "run rt evs (cleanup c) = Inr (cleanup c)"
  by (induction evs) (simp_all add: step_after_cleanup)

text \<open>
  C7. In every state a connection can reach, closing it (the \<open>close\<close> event, and
  likewise the \<open>error\<close> event and the idle timeout) runs \<open>cleanup\<close> in one step:
  both timers are stopped, the socket is destroyed and the map of sinks is emptied.
  Before, each stream the connection owns has never been ended and every other stream
  has been ended once; afterwards every stream it ever opened has been ended exactly
  once. A second \<open>cleanup\<close> changes nothing, and neither does any later event.
\<close>

theorem C7_close_once:
  assumes "run rt evs (new_conn t0) = Inr c"
  shows "step rt SocketClose c = Inr (cleanup c)
       \<and> keepAliveTimer (cleanup c) \<noteq> Running \<and> idleTimer (cleanup c) \<noteq> Running
       \<and> files (cleanup c) = [] \<and> destroyed (cleanup c)
       \<and> length (streams (cleanup c)) = length (streams c)
       \<and> (\<forall>i < length (streams c). ended (streams c ! i) = (if i \<in> owned c then 0 else 1))
       \<and> (\<forall>i < length (streams c). ended (streams (cleanup c) ! i) = 1)
       \<and> cleanup (cleanup c) = cleanup c
       \<and> run rt later (cleanup c) = Inr (cleanup c)"
proof -
  have ok: "sinks_ok c"
    using run_sinks_ok[OF sinks_ok_new assms] .
  then have before: "\<forall>i < length (streams c). ended (streams c ! i) = (if i \<in> owned c then 0 else 1)"
    by (simp add: sinks_ok_def)
  show ?thesis
    using before sinks_ok_cleanup(2,3)[OF ok] cleanup_fields[of c] cleanup_idem[of c]
      run_after_cleanup[of rt later c]
    by (simp add: step_def)
qed


lemma sample_five: "num_str sample_rt 5 = ''5''"
  by (simp add: sample_rt_def show_int_def show_nat.simps digit_char_def)

lemma media5_parsed:
  "parseN9M media5 = Some \<lparr> pt = 2, chan = 5, body = [1, 2, 3], rest = [] \<rparr>"
  by (simp add: parseN9M_def media5_def readUInt8_def readUInt16BE_def readUInt32BE_def
        subarray_def Let_def)

lemma recording5_reached: "run sample_rt [Data 7 media5] (new_conn 0) = Inr recording5"
proof -
  have h: "handlePacket sample_rt 7 2 5 [1, 2, 3] ((new_conn 0)\<lparr>lastActivity := 7\<rparr>)
             = Inr (recording5\<lparr>recvBuf := []\<rparr>)"
    by (simp add: handlePacket_def handleH264_def new_conn_def recording5_def str_or_def
          sample_five Let_def)
  have e: "parseN9M [] = None" by (simp add: parseN9M_def)
  have "recv_loop (handlePacket sample_rt 7) ((new_conn 0)\<lparr>lastActivity := 7\<rparr>) media5
          = Inr (recording5\<lparr>recvBuf := []\<rparr>, [])"
    by (subst recv_loop.simps) (simp add: media5_parsed h recv_loop_waiting[OF e])
  then show ?thesis
    by (simp add: step_def on_data_def new_conn_def recording5_def)
qed

theorem C7_close_once_witness:
  "step sample_rt SocketClose recording5 = Inr (cleanup recording5)
   \<and> keepAliveTimer (cleanup recording5) = Cleared \<and> idleTimer (cleanup recording5) = Cleared
   \<and> files (cleanup recording5) = [] \<and> destroyed (cleanup recording5)
   \<and> ended (streams recording5 ! 0) = 0
   \<and> ended (streams (cleanup recording5) ! 0) = 1
   \<and> cleanup (cleanup recording5) = cleanup recording5
   \<and> run sample_rt [KeepAliveTimer True, IdleTimer 999999, SocketError, SocketClose, Data 2 media5]
        (cleanup recording5) = Inr (cleanup recording5)"
proof -
  note w = C7_close_once[OF recording5_reached,
      of "[KeepAliveTimer True, IdleTimer 999999, SocketError, SocketClose, Data 2 media5]"]
  have l: "length (streams recording5) = 1" "0 \<in> owned recording5"
    by (simp_all add: recording5_def owned_def)
  have t: "keepAliveTimer (cleanup recording5) = Cleared" "idleTimer (cleanup recording5) = Cleared"
    by (simp_all add: cleanup_def recording5_def clearInterval_def)
  from w l t show ?thesis by simp
qed











text \<open>
  C8, as the claim states it, fails. When \<open>socket.write\<close> raises in the keepalive
  timer, the exception is caught and dropped: the connection stays as it was, timers
  running and its sink open, where a close would have cleaned up. In video\_server.js
  the \<open>error\<close> handler prints the error and leaves the session in the registry.
\<close>

theorem C8_keepalive_failure_swallowed:
  "step sample_rt (KeepAliveTimer False) recording5 = Inr recording5
   \<and> keepAliveTimer recording5 = Running \<and> idleTimer recording5 = Running
   \<and> files recording5 = [(5, 0)] \<and> ended (streams recording5 ! 0) = 0
   \<and> destroyed recording5 = False
   \<and> step sample_rt SocketClose recording5 = Inr (cleanup recording5)
   \<and> cleanup recording5 \<noteq> recording5
   \<and> onError sample_rt connected_abc = Inr connected_abc
   \<and> devices connected_abc ''abc'' \<noteq> None"
proof -
  have a: "step sample_rt (KeepAliveTimer False) recording5 = Inr recording5"
    by (simp add: step_def keepAlive_tick_def)
  have b: "destroyed (cleanup recording5) \<noteq> destroyed recording5"
    by (simp add: cleanup_def recording5_def)
  then have c: "cleanup recording5 \<noteq> recording5" by auto
  have d: "onError sample_rt connected_abc = Inr connected_abc"
    by (simp add: onError_def carNumText_def getCarNum_def connected_abc_def)
  show ?thesis
    using a c d by (simp add: recording5_def step_def connected_abc_def)
qed

text \<open>
  C8, amended. In the transmit-mode server a failure that the socket reports through
  its \<open>error\<close> event runs the same \<open>cleanup\<close> as the \<open>close\<close> event: timers
  stopped, \<open>end()\<close> called on every sink of the map, the map emptied, the socket
  destroyed. A \<open>socket.write\<close> that raises inside the keepalive timer is caught and
  ignored, and the connection stays as it was. In video\_server.js the \<open>error\<close>
  handler only prints: it returns the state unchanged, unless printing itself raises.
\<close>

theorem C8_transport_failures:
  "step rt (KeepAliveTimer False) c = Inr c
   \<and> step rt SocketError c = step rt SocketClose c
   \<and> step rt SocketError c = Inr (cleanup c)
   \<and> keepAliveTimer (cleanup c) \<noteq> Running \<and> idleTimer (cleanup c) \<noteq> Running
   \<and> streams (cleanup c) = end_all (files c) (streams c)
   \<and> files (cleanup c) = [] \<and> destroyed (cleanup c)
   \<and> (onError rt' st = Inr st \<or> onError rt' st = Inl TypeError)"
proof -
  have k: "step rt (KeepAliveTimer False) c = Inr c"
    by (simp add: step_def keepAlive_tick_def)
  have e: "onError rt' st = Inr st \<or> onError rt' st = Inl TypeError"
    using ToString_error(1)
    by (auto simp: onError_def carNumText_def getCarNum_def split: sum.splits)
  show ?thesis
    using k e cleanup_fields[of c] by (simp add: step_def cleanup_def)
qed

end
